theory Spec2Isabelle
  imports Complex_Main
begin

section \<open>JavaScript numbers\<close>

text \<open>
  The wind layer computes with JavaScript numbers, the binary64 values of IEEE arithmetic.
  A number is modelled as a real number or one of the three special values. The operators
  \<open>jadd\<close>, \<open>jsub\<close>, \<open>jmul\<close>, \<open>jdiv\<close> and \<open>jsqrt\<close> below give the exact result of an
  operation and follow the language's rules for the special values (a comparison with
  \<open>NaN\<close> is false, \<open>0/0\<close> and \<open>Infinity - Infinity\<close> are \<open>NaN\<close>, \<open>x/0\<close> is an infinity for
  \<open>x \<noteq> 0\<close>, \<open>Math.min\<close> and \<open>Math.max\<close> return \<open>NaN\<close> when an argument is \<open>NaN\<close>).
  \<open>toDouble\<close> rounds an exact result to binary64 and \<open>fround\<close> to binary32; the operators
  \<open>dadd\<close>, \<open>dsub\<close>, \<open>dmul\<close>, \<open>ddiv\<close> and \<open>dsqrt\<close> are the exact operation followed by the
  rounding to binary64, which is what the language's operators compute. The sign of zero is
  not modelled (a zero divisor counts as \<open>+0\<close>, which is what a difference \<open>x - x\<close> yields).

  \<open>processWindData\<close> and \<open>getDataAtLonLat\<close> are modelled with the rounding operators.
  \<open>updateViewerParameters\<close> is modelled with the exact ones.
\<close>

datatype jsnum = Fin real | PInf | NInf | NaN

fun isFin :: "jsnum \<Rightarrow> bool" where
  "isFin (Fin x) = True"
| "isFin PInf = False"
| "isFin NInf = False"
| "isFin NaN = False"

text \<open>\<open>a < b\<close>\<close>

fun jlt :: "jsnum \<Rightarrow> jsnum \<Rightarrow> bool" where
  "jlt (Fin x) (Fin y) = (x < y)"
| "jlt (Fin x) PInf = True"
| "jlt NInf (Fin y) = True"
| "jlt NInf PInf = True"
| "jlt a b = False"

text \<open>\<open>a > b\<close>\<close>

definition jgt :: "jsnum \<Rightarrow> jsnum \<Rightarrow> bool" where
  "jgt a b = jlt b a"

text \<open>\<open>a !== b\<close> on two numbers\<close>

fun jne :: "jsnum \<Rightarrow> jsnum \<Rightarrow> bool" where
  "jne NaN b = True"
| "jne a NaN = True"
| "jne a b = (a \<noteq> b)"

text \<open>Unary minus\<close>

fun jneg :: "jsnum \<Rightarrow> jsnum" where
  "jneg (Fin x) = Fin (- x)"
| "jneg PInf = NInf"
| "jneg NInf = PInf"
| "jneg NaN = NaN"

text \<open>\<open>a + b\<close>\<close>

fun jadd :: "jsnum \<Rightarrow> jsnum \<Rightarrow> jsnum" where
  "jadd (Fin x) (Fin y) = Fin (x + y)"
| "jadd NaN b = NaN"
| "jadd a NaN = NaN"
| "jadd PInf NInf = NaN"
| "jadd NInf PInf = NaN"
| "jadd PInf b = PInf"
| "jadd NInf b = NInf"
| "jadd a PInf = PInf"
| "jadd a NInf = NInf"

text \<open>\<open>a - b\<close>\<close>

definition jsub :: "jsnum \<Rightarrow> jsnum \<Rightarrow> jsnum" where
  "jsub a b = jadd a (jneg b)"

text \<open>An infinity of the given sign\<close>

definition inf_of :: "bool \<Rightarrow> jsnum" where
  "inf_of positive = (if positive then PInf else NInf)"

text \<open>\<open>a * b\<close>\<close>

fun jmul :: "jsnum \<Rightarrow> jsnum \<Rightarrow> jsnum" where
  "jmul (Fin x) (Fin y) = Fin (x * y)"
| "jmul NaN b = NaN"
| "jmul a NaN = NaN"
| "jmul PInf (Fin y) = (if y = 0 then NaN else inf_of (0 < y))"
| "jmul NInf (Fin y) = (if y = 0 then NaN else inf_of (y < 0))"
| "jmul (Fin x) PInf = (if x = 0 then NaN else inf_of (0 < x))"
| "jmul (Fin x) NInf = (if x = 0 then NaN else inf_of (x < 0))"
| "jmul PInf PInf = PInf"
| "jmul NInf NInf = PInf"
| "jmul PInf NInf = NInf"
| "jmul NInf PInf = NInf"

text \<open>\<open>a / b\<close>\<close>

fun jdiv :: "jsnum \<Rightarrow> jsnum \<Rightarrow> jsnum" where
  "jdiv (Fin x) (Fin y) =
     (if y = 0 then (if x = 0 then NaN else inf_of (0 < x)) else Fin (x / y))"
| "jdiv NaN b = NaN"
| "jdiv a NaN = NaN"
| "jdiv (Fin x) PInf = Fin 0"
| "jdiv (Fin x) NInf = Fin 0"
| "jdiv PInf (Fin y) = inf_of (0 \<le> y)"
| "jdiv NInf (Fin y) = inf_of (y < 0)"
| "jdiv PInf PInf = NaN"
| "jdiv PInf NInf = NaN"
| "jdiv NInf PInf = NaN"
| "jdiv NInf NInf = NaN"

text \<open>\<open>Math.min(a, b)\<close> and \<open>Math.max(a, b)\<close>\<close>

fun jmin :: "jsnum \<Rightarrow> jsnum \<Rightarrow> jsnum" where
  "jmin NaN b = NaN"
| "jmin a NaN = NaN"
| "jmin a b = (if jlt b a then b else a)"

fun jmax :: "jsnum \<Rightarrow> jsnum \<Rightarrow> jsnum" where
  "jmax NaN b = NaN"
| "jmax a NaN = NaN"
| "jmax a b = (if jlt a b then b else a)"

text \<open>\<open>Math.sqrt(a)\<close>\<close>

fun jsqrt :: "jsnum \<Rightarrow> jsnum" where
  "jsqrt (Fin x) = (if x < 0 then NaN else Fin (sqrt x))"
| "jsqrt PInf = PInf"
| "jsqrt NInf = NaN"
| "jsqrt NaN = NaN"

text \<open>\<open>Math.floor(a)\<close>\<close>

fun jfloor :: "jsnum \<Rightarrow> jsnum" where
  "jfloor (Fin x) = Fin (of_int \<lfloor>x\<rfloor>)"
| "jfloor a = a"

subsection \<open>Rounding\<close>

text \<open>The integer nearest to a real number, the even one of the two when it is halfway.\<close>

definition roundEven :: "real \<Rightarrow> int" where
  "roundEven t =
     (if t - of_int \<lfloor>t\<rfloor> < 1 / 2 then \<lfloor>t\<rfloor>
      else if 1 / 2 < t - of_int \<lfloor>t\<rfloor> then \<lfloor>t\<rfloor> + 1
      else if even \<lfloor>t\<rfloor> then \<lfloor>t\<rfloor> else \<lfloor>t\<rfloor> + 1)"

text \<open>
  The spacing of the values of a binary format around the magnitude \<open>a\<close>. The format has
  \<open>p\<close> significant bits; \<open>q\<close> is the spacing of its subnormal values, which is also the
  spacing up to \<open>2 ^ p * q\<close>; from there on the spacing doubles whenever the magnitude does,
  \<open>n\<close> times at most.
\<close>

fun quantum :: "nat \<Rightarrow> nat \<Rightarrow> real \<Rightarrow> real \<Rightarrow> real" where
  "quantum p 0 q a = q"
| "quantum p (Suc n) q a = (if a < 2 ^ p * q then q else quantum p n (2 * q) a)"

text \<open>
  Rounding to nearest, ties to even: the magnitude is rounded to a multiple of the spacing,
  and a result of \<open>2 ^ p\<close> times the largest spacing or more is an infinity.
\<close>

definition roundBinary :: "nat \<Rightarrow> real \<Rightarrow> nat \<Rightarrow> real \<Rightarrow> jsnum" where
  "roundBinary p q0 n x =
     (let a = \<bar>x\<bar>;
          q = quantum p n q0 a;
          y = of_int (roundEven (a / q)) * q
      in if 2 ^ p * (q0 * 2 ^ n) \<le> y then inf_of (0 < x)
         else Fin (if x < 0 then - y else y))"

text \<open>
  binary64 has 53 significant bits, subnormal spacing \<open>2 ^ - 1074\<close> and exponents from
  -1022 to 1023; binary32 has 24 bits, subnormal spacing \<open>2 ^ - 149\<close> and exponents from
  -126 to 127.
\<close>

definition doubleQuantum :: real where
  "doubleQuantum = 1 / 2 ^ 1074"

definition singleQuantum :: real where
  "singleQuantum = 1 / 2 ^ 149"

fun toDouble :: "jsnum \<Rightarrow> jsnum" where
  "toDouble (Fin x) = roundBinary 53 doubleQuantum 2045 x"
| "toDouble PInf = PInf"
| "toDouble NInf = NInf"
| "toDouble NaN = NaN"

text \<open>\<open>Math.fround(a)\<close>, the conversion of a store into a \<open>Float32Array\<close>\<close>

fun fround :: "jsnum \<Rightarrow> jsnum" where
  "fround (Fin x) = roundBinary 24 singleQuantum 253 x"
| "fround PInf = PInf"
| "fround NInf = NInf"
| "fround NaN = NaN"

declare toDouble.simps(1) [simp del]
declare fround.simps(1) [simp del]

text \<open>\<open>a + b\<close>, \<open>a - b\<close>, \<open>a * b\<close>, \<open>a / b\<close> and \<open>Math.sqrt(a)\<close> on doubles\<close>

definition dadd :: "jsnum \<Rightarrow> jsnum \<Rightarrow> jsnum" where
  "dadd a b = toDouble (jadd a b)"

definition dsub :: "jsnum \<Rightarrow> jsnum \<Rightarrow> jsnum" where
  "dsub a b = toDouble (jsub a b)"

definition dmul :: "jsnum \<Rightarrow> jsnum \<Rightarrow> jsnum" where
  "dmul a b = toDouble (jmul a b)"

definition ddiv :: "jsnum \<Rightarrow> jsnum \<Rightarrow> jsnum" where
  "ddiv a b = toDouble (jdiv a b)"

definition dsqrt :: "jsnum \<Rightarrow> jsnum" where
  "dsqrt a = toDouble (jsqrt a)"

text \<open>\<open>Number.MAX_VALUE\<close> and \<open>Number.MIN_VALUE\<close> (the smallest positive number)\<close>

definition MAX_VALUE :: jsnum where
  "MAX_VALUE = Fin ((2 - 1 / 2 ^ 52) * 2 ^ 1023)"

definition MIN_VALUE :: jsnum where
  "MIN_VALUE = Fin (1 / 2 ^ 1074)"

text \<open>
  Reading an array: \<open>xs[i]\<close> is \<open>undefined\<close> (here \<open>None\<close>) unless \<open>i\<close> is an integer
  value within the array; \<open>undefined\<close> used in arithmetic converts to \<open>NaN\<close>.
\<close>

fun readAt :: "jsnum list \<Rightarrow> jsnum \<Rightarrow> jsnum option" where
  "readAt xs (Fin r) =
     (if of_int \<lfloor>r\<rfloor> = r \<and> 0 \<le> r \<and> nat \<lfloor>r\<rfloor> < length xs then Some (xs ! nat \<lfloor>r\<rfloor>) else None)"
| "readAt xs a = None"

definition readIdx :: "jsnum list \<Rightarrow> nat \<Rightarrow> jsnum option" where
  "readIdx xs i = (if i < length xs then Some (xs ! i) else None)"

fun toNumber :: "jsnum option \<Rightarrow> jsnum" where
  "toNumber None = NaN"
| "toNumber (Some x) = x"

section \<open>Wind data\<close>

text \<open>
  One axis of a field (\<open>u\<close>, \<open>v\<close>, \<open>speed\<close> or \<open>mask\<close>): the sample array and the optional
  \<open>min\<close> and \<open>max\<close> members (\<open>None\<close> is \<open>undefined\<close>). A sample array is a list of
  numbers.
\<close>

record axis =
  array :: "jsnum list"
  amin :: "jsnum option"
  amax :: "jsnum option"

record bounds =
  west :: jsnum
  south :: jsnum
  east :: jsnum
  north :: jsnum

text \<open>\<open>WindData\<close>: \<open>speed\<close> and \<open>mask\<close> are optional members.\<close>

record WindData =
  u :: axis
  v :: axis
  speed :: "axis option"
  mask :: "axis option"
  width :: jsnum
  height :: jsnum
  bounds :: bounds

text \<open>\<open>Required<WindData>\<close>: every member is present.\<close>

record RequiredWindData =
  ru :: axis
  rv :: axis
  rspeed :: axis
  rmask :: axis
  rwidth :: jsnum
  rheight :: jsnum
  rbounds :: bounds

text \<open>A \<open>Required<WindData>\<close> value read at type \<open>WindData\<close>.\<close>

definition asWindData :: "RequiredWindData \<Rightarrow> WindData" where
  "asWindData r =
     \<lparr>u = ru r, v = rv r, speed = Some (rspeed r), mask = Some (rmask r),
      width = rwidth r, height = rheight r, bounds = rbounds r\<rparr>"

subsection \<open>processWindData\<close>

text \<open>
  The loop that derives the speed axis. The state is the \<open>speed\<close> object under
  construction: its array, a \<open>Float32Array\<close>, and its \<open>min\<close> and \<open>max\<close>. The store rounds
  the square root to single precision, and the test and the accumulation read the stored
  value.
\<close>

function speedLoop :: "jsnum list \<Rightarrow> jsnum list \<Rightarrow> nat \<Rightarrow> jsnum list \<times> jsnum \<times> jsnum \<Rightarrow> jsnum list \<times> jsnum \<times> jsnum" where
  "speedLoop ua va i (arr, mn, mx) =
     (if i < length ua then
        let ui = toNumber (readIdx ua i);
            vi = toNumber (readIdx va i);
            arr' = arr[i := fround (dsqrt (dadd (dmul ui ui) (dmul vi vi)))];
            si = toNumber (readIdx arr' i)
        in if jne si (Fin 0)
           then speedLoop ua va (i + 1) (arr', jmin mn si, jmax mx si)
           else speedLoop ua va (i + 1) (arr', mn, mx)
      else (arr, mn, mx))"
  by pat_completeness auto
termination
  by (relation "measure (\<lambda>(ua, va, i, st). length ua - i)") auto

declare speedLoop.simps [simp del]

text \<open>The loop that computes \<open>min\<close> and \<open>max\<close> of a provided mask.\<close>

function maskLoop :: "jsnum list \<Rightarrow> nat \<Rightarrow> jsnum \<times> jsnum \<Rightarrow> jsnum \<times> jsnum" where
  "maskLoop ma i (mn, mx) =
     (if i < length ma then
        let mi = toNumber (readIdx ma i)
        in maskLoop ma (i + 1) (jmin mn mi, jmax mx mi)
      else (mn, mx))"
  by pat_completeness auto
termination
  by (relation "measure (\<lambda>(ma, i, st). length ma - i)") auto

declare maskLoop.simps [simp del]

text \<open>
  The first statement of \<open>processWindData\<close>: the speed axis is derived unless the given
  one has both \<open>min\<close> and \<open>max\<close>. (The type of an axis makes \<open>array\<close> mandatory, so the
  third test of the source, \<open>speed.array === undefined\<close>, is false for every axis.)
\<close>

definition deriveSpeed :: "WindData \<Rightarrow> axis" where
  "deriveSpeed w =
     (let n = length (array (u w));
          (arr, mn, mx) = speedLoop (array (u w)) (array (v w)) 0 (replicate n (Fin 0), MAX_VALUE, MIN_VALUE)
      in \<lparr>array = arr, amin = Some mn, amax = Some mx\<rparr>)"

definition processSpeed :: "WindData \<Rightarrow> axis" where
  "processSpeed w =
     (case speed w of
        None \<Rightarrow> deriveSpeed w
      | Some s \<Rightarrow> if amin s = None \<or> amax s = None then deriveSpeed w else s)"

definition processMask :: "WindData \<Rightarrow> axis" where
  "processMask w =
     (case mask w of
        None \<Rightarrow>
          \<lparr>array = replicate (length (array (u w))) (Fin 1), amin = Some (Fin 1), amax = Some (Fin 1)\<rparr>
      | Some m \<Rightarrow>
          if amin m = None \<or> amax m = None then
            (let (mn, mx) = maskLoop (array m) 0 (MAX_VALUE, MIN_VALUE)
             in m\<lparr>amin := Some mn, amax := Some mx\<rparr>)
          else m)"

definition processWindData :: "WindData \<Rightarrow> RequiredWindData" where
  "processWindData w =
     \<lparr>ru = u w, rv = v w, rspeed = processSpeed w, rmask = processMask w,
      rwidth = width w, rheight = height w, rbounds = bounds w\<rparr>"

section \<open>The layer and its host\<close>

record range =
  rmin :: jsnum
  rmax :: jsnum

text \<open>\<open>WindLayerOptions\<close> and \<open>Partial<WindLayerOptions>\<close> (\<open>None\<close>: the key is absent).\<close>

record WindLayerOptions =
  particlesTextureSize :: jsnum
  dropRate :: jsnum
  particleHeight :: jsnum
  dropRateBump :: jsnum
  speedFactor :: jsnum
  lineWidth :: range
  lineLength :: range
  colors :: "string list"
  flipY :: bool
  useViewerBounds :: bool
  domain :: "range option"
  displayRange :: "range option"
  dynamic :: bool

record PartialOptions =
  p_particlesTextureSize :: "jsnum option"
  p_dropRate :: "jsnum option"
  p_particleHeight :: "jsnum option"
  p_dropRateBump :: "jsnum option"
  p_speedFactor :: "jsnum option"
  p_lineWidth :: "range option"
  p_lineLength :: "range option"
  p_colors :: "string list option"
  p_flipY :: "bool option"
  p_useViewerBounds :: "bool option"
  p_domain :: "range option option"
  p_displayRange :: "range option option"
  p_dynamic :: "bool option"

definition DefaultOptions :: WindLayerOptions where
  "DefaultOptions =
     \<lparr>particlesTextureSize = Fin 100,
      dropRate = Fin (3 / 1000),
      particleHeight = Fin 1000,
      dropRateBump = Fin (1 / 100),
      speedFactor = Fin 1,
      lineWidth = \<lparr>rmin = Fin 1, rmax = Fin 2\<rparr>,
      lineLength = \<lparr>rmin = Fin 20, rmax = Fin 100\<rparr>,
      colors = [''white''],
      flipY = False,
      useViewerBounds = False,
      domain = None,
      displayRange = None,
      dynamic = True\<rparr>"

text \<open>One key of an object spread \<open>{ ...defaults, ...options }\<close>.\<close>

definition spreadKey :: "'a \<Rightarrow> 'a option \<Rightarrow> 'a" where
  "spreadKey d p = (case p of None \<Rightarrow> d | Some x \<Rightarrow> x)"

definition spreadOptions :: "WindLayerOptions \<Rightarrow> PartialOptions option \<Rightarrow> WindLayerOptions" where
  "spreadOptions d po =
     (case po of
        None \<Rightarrow> d
      | Some p \<Rightarrow>
         \<lparr>particlesTextureSize = spreadKey (particlesTextureSize d) (p_particlesTextureSize p),
          dropRate = spreadKey (dropRate d) (p_dropRate p),
          particleHeight = spreadKey (particleHeight d) (p_particleHeight p),
          dropRateBump = spreadKey (dropRateBump d) (p_dropRateBump p),
          speedFactor = spreadKey (speedFactor d) (p_speedFactor p),
          lineWidth = spreadKey (lineWidth d) (p_lineWidth p),
          lineLength = spreadKey (lineLength d) (p_lineLength p),
          colors = spreadKey (colors d) (p_colors p),
          flipY = spreadKey (flipY d) (p_flipY p),
          useViewerBounds = spreadKey (useViewerBounds d) (p_useViewerBounds p),
          domain = spreadKey (domain d) (p_domain p),
          displayRange = spreadKey (displayRange d) (p_displayRange p),
          dynamic = spreadKey (dynamic d) (p_dynamic p)\<rparr>)"

datatype SceneMode = MORPHING | COLUMBUS_VIEW | SCENE2D | SCENE3D

record Cartesian2 =
  cx :: jsnum
  cy :: jsnum

record ViewerParameters =
  lonRange :: Cartesian2
  latRange :: Cartesian2
  pixelSize :: jsnum
  sceneMode :: SceneMode

datatype WindLayerEventType = DataChange | OptionsChange

datatype payload = DataPayload RequiredWindData | OptionsPayload WindLayerOptions

text \<open>
  The particle system is an external collaborator: the model keeps the drawable objects it
  hands out (as identifiers) and the calls it has received.
\<close>

datatype ps_call =
    UpdateWindData RequiredWindData
  | ChangeOptions PartialOptions
  | ApplyViewerParameters ViewerParameters
  | DestroySystem

record WindParticleSystem =
  getPrimitives :: "nat list"
  received :: "ps_call list"

text \<open>
  The host: the viewer with its camera, scene and canvas, the window, and the function
  objects of the program. A function object is identified by a number; \<open>nextFunction\<close> is the
  next unused one. An event source holds the listeners registered with it, in order.
  \<open>pickEllipsoid\<close> stands for \<open>scene.camera.pickEllipsoid\<close> followed by the conversion of
  the picked point to longitude and latitude in degrees; \<open>None\<close> is a pick that misses the
  globe. \<open>delivered\<close> records every call of a subscriber callback with its argument.
\<close>

record host =
  percentageChanged :: jsnum
  cameraChanged :: "nat list"
  morphComplete :: "nat list"
  windowResize :: "nat list"
  scenePrimitives :: "nat list"
  renderRequests :: nat
  mode :: SceneMode
  clientWidth :: jsnum
  clientHeight :: jsnum
  pickEllipsoid :: "jsnum \<times> jsnum \<Rightarrow> (jsnum \<times> jsnum) option"
  nextFunction :: nat
  delivered :: "(nat \<times> payload) list"

text \<open>The fields of a \<open>WindLayer\<close> object; \<open>particleSystem\<close> is \<open>None\<close> until it is created.\<close>

record layer =
  showFlag :: bool
  windData :: RequiredWindData
  viewer :: host
  options :: WindLayerOptions
  particleSystem :: "WindParticleSystem option"
  viewerParameters :: ViewerParameters
  isDestroyedFlag :: bool
  primitives :: "nat list"
  eventListeners :: "WindLayerEventType \<Rightarrow> nat list option"

datatype error = TypeError

section \<open>getDataAtLonLat\<close>

record originalSample =
  ou :: "jsnum option"
  ov :: "jsnum option"
  ospeed :: "jsnum option"

record interpolatedSample =
  iu :: jsnum
  iv :: jsnum
  ispeed :: jsnum

record WindDataAtLonLat =
  original :: originalSample
  interpolated :: interpolatedSample

text \<open>The normalized grid coordinates of a query, after \<open>flipY\<close> is applied.\<close>

definition xNormOf :: "layer \<Rightarrow> jsnum \<Rightarrow> jsnum" where
  "xNormOf this lon =
     (let b = rbounds (windData this)
      in dmul (ddiv (dsub lon (west b)) (dsub (east b) (west b))) (dsub (rwidth (windData this)) (Fin 1)))"

definition yNormOf :: "layer \<Rightarrow> jsnum \<Rightarrow> jsnum" where
  "yNormOf this lat =
     (let b = rbounds (windData this);
          h = rheight (windData this);
          yNorm = dmul (ddiv (dsub lat (south b)) (dsub (north b) (south b))) (dsub h (Fin 1))
      in if flipY (options this) then dsub (dsub h (Fin 1)) yNorm else yNorm)"

definition getDataAtLonLat :: "layer \<Rightarrow> jsnum \<Rightarrow> jsnum \<Rightarrow> WindDataAtLonLat option" where
  "getDataAtLonLat this lon lat =
     (let b = rbounds (windData this);
          w = rwidth (windData this);
          h = rheight (windData this);
          ua = array (ru (windData this));
          va = array (rv (windData this));
          sa = array (rspeed (windData this))
      in if jlt lon (west b) \<or> jgt lon (east b) \<or> jlt lat (south b) \<or> jgt lat (north b)
         then None
         else
           let xNorm = xNormOf this lon;
               yNorm = yNormOf this lat;
               x = jfloor xNorm;
               y = jfloor yNorm;
               x0 = jfloor xNorm;
               x1 = jmin (dadd x0 (Fin 1)) (dsub w (Fin 1));
               y0 = jfloor yNorm;
               y1 = jmin (dadd y0 (Fin 1)) (dsub h (Fin 1));
               wx = dsub xNorm x0;
               wy = dsub yNorm y0;
               index = dadd (dmul y w) x;
               i00 = dadd (dmul y0 w) x0;
               i10 = dadd (dmul y0 w) x1;
               i01 = dadd (dmul y1 w) x0;
               i11 = dadd (dmul y1 w) x1;
               u00 = toNumber (readAt ua i00);
               u10 = toNumber (readAt ua i10);
               u01 = toNumber (readAt ua i01);
               u11 = toNumber (readAt ua i11);
               uInterp =
                 dadd (dadd (dadd (dmul (dmul (dsub (Fin 1) wx) (dsub (Fin 1) wy)) u00)
                                  (dmul (dmul wx (dsub (Fin 1) wy)) u10))
                            (dmul (dmul (dsub (Fin 1) wx) wy) u01))
                      (dmul (dmul wx wy) u11);
               v00 = toNumber (readAt va i00);
               v10 = toNumber (readAt va i10);
               v01 = toNumber (readAt va i01);
               v11 = toNumber (readAt va i11);
               vInterp =
                 dadd (dadd (dadd (dmul (dmul (dsub (Fin 1) wx) (dsub (Fin 1) wy)) v00)
                                  (dmul (dmul wx (dsub (Fin 1) wy)) v10))
                            (dmul (dmul (dsub (Fin 1) wx) wy) v01))
                      (dmul (dmul wx wy) v11);
               interpolatedSpeed = dsqrt (dadd (dmul uInterp uInterp) (dmul vInterp vInterp))
           in Some
                \<lparr>original = \<lparr>ou = readAt ua index, ov = readAt va index, ospeed = readAt sa index\<rparr>,
                 interpolated = \<lparr>iu = uInterp, iv = vInterp, ispeed = interpolatedSpeed\<rparr>\<rparr>)"

section \<open>updateViewerParameters\<close>

text \<open>
  The loop over the four screen corners. Its state is \<open>isOutsideGlobe\<close> and the running
  \<open>minLon\<close>, \<open>maxLon\<close>, \<open>minLat\<close>, \<open>maxLat\<close>; a failed pick sets the flag and leaves the loop.
\<close>

fun cornerLoop ::
  "(jsnum \<times> jsnum \<Rightarrow> (jsnum \<times> jsnum) option) \<Rightarrow> (jsnum \<times> jsnum) list \<Rightarrow>
   bool \<times> jsnum \<times> jsnum \<times> jsnum \<times> jsnum \<Rightarrow> bool \<times> jsnum \<times> jsnum \<times> jsnum \<times> jsnum" where
  "cornerLoop pick [] st = st"
| "cornerLoop pick (corner # rest) (isOutsideGlobe, minLon, maxLon, minLat, maxLat) =
     (case pick corner of
        None \<Rightarrow> (True, minLon, maxLon, minLat, maxLat)
      | Some (lon, lat) \<Rightarrow>
          cornerLoop pick rest
            (isOutsideGlobe, jmin minLon lon, jmax maxLon lon, jmin minLat lat, jmax maxLat lat))"

definition corners :: "host \<Rightarrow> (jsnum \<times> jsnum) list" where
  "corners h =
     [(Fin 0, Fin 0), (Fin 0, clientHeight h), (clientWidth h, Fin 0), (clientWidth h, clientHeight h)]"

definition pickCorners :: "host \<Rightarrow> bool \<times> jsnum \<times> jsnum \<times> jsnum \<times> jsnum" where
  "pickCorners h =
     cornerLoop (pickEllipsoid h) (corners h) (False, Fin 180, Fin (- 180), Fin 90, Fin (- 90))"

text \<open>The intersection with the data bounds and the 5% buffer, for one axis.\<close>

definition bufferedRange :: "jsnum \<Rightarrow> jsnum \<Rightarrow> jsnum \<Rightarrow> jsnum \<Rightarrow> Cartesian2" where
  "bufferedRange lo hi minV maxV =
     (let r = \<lparr>cx = jmax lo minV, cy = jmin hi maxV\<rparr>;
          buffer = jmul (jsub (cy r) (cx r)) (Fin (5 / 100))
      in \<lparr>cx = jmax lo (jsub (cx r) buffer), cy = jmin hi (jadd (cy r) buffer)\<rparr>)"

definition visibleRatio :: "bounds \<Rightarrow> Cartesian2 \<Rightarrow> Cartesian2 \<Rightarrow> jsnum" where
  "visibleRatio b lonR latR =
     (let dataLonRange = jsub (east b) (west b);
          dataLatRange = jsub (north b) (south b);
          visibleRatioLon = jdiv (jsub (cy lonR) (cx lonR)) dataLonRange;
          visibleRatioLat = jdiv (jsub (cy latR) (cx latR)) dataLatRange
      in jmin visibleRatioLon visibleRatioLat)"

definition updateViewerParameters :: "layer \<Rightarrow> layer" where
  "updateViewerParameters this =
     (let (isOutsideGlobe, minLon, maxLon, minLat, maxLat) = pickCorners (viewer this);
          b = rbounds (windData this);
          vp0 = viewerParameters this;
          vp1 =
            (if \<not> isOutsideGlobe then
               let lonR = bufferedRange (west b) (east b) minLon maxLon;
                   latR = bufferedRange (south b) (north b) minLat maxLat;
                   vp = vp0\<lparr>lonRange := lonR, latRange := latR\<rparr>;
                   pixelSize' = jmul (Fin 1000) (visibleRatio b lonR latR)
               in if jgt pixelSize' (Fin 0)
                  then vp\<lparr>pixelSize := jmax (Fin 0) (jmin (Fin 1000) pixelSize')\<rparr>
                  else vp
             else vp0);
          vp2 = vp1\<lparr>sceneMode := mode (viewer this)\<rparr>
      in this\<lparr>viewerParameters := vp2,
              particleSystem :=
                (case particleSystem this of
                   None \<Rightarrow> None
                 | Some ps \<Rightarrow> Some (ps\<lparr>received := received ps @ [ApplyViewerParameters vp2]\<rparr>))\<rparr>)"

section \<open>Listeners of the host's events\<close>

text \<open>
  \<open>f.bind(this)\<close> creates a new function object at every call. Every function bound here
  is \<open>updateViewerParameters\<close> bound to the layer, so only its identity is kept.
\<close>

definition bindFunction :: "host \<Rightarrow> nat \<times> host" where
  "bindFunction h = (nextFunction h, h\<lparr>nextFunction := nextFunction h + 1\<rparr>)"

text \<open>
  An event of the viewer appends a listener on \<open>addEventListener\<close> and, on
  \<open>removeEventListener\<close>, removes the registered listener that is identical to the
  argument, if there is one. The window ignores the registration of a listener that is
  already registered.
\<close>

definition eventAdd :: "nat list \<Rightarrow> nat \<Rightarrow> nat list" where
  "eventAdd ls f = ls @ [f]"

definition eventRemove :: "nat list \<Rightarrow> nat \<Rightarrow> nat list" where
  "eventRemove ls f = remove1 f ls"

definition windowAdd :: "nat list \<Rightarrow> nat \<Rightarrow> nat list" where
  "windowAdd ls f = (if f \<in> set ls then ls else ls @ [f])"

definition windowRemove :: "nat list \<Rightarrow> nat \<Rightarrow> nat list" where
  "windowRemove ls f = remove1 f ls"

definition setupEventListeners :: "layer \<Rightarrow> layer" where
  "setupEventListeners this =
     (let h0 = (viewer this)\<lparr>percentageChanged := Fin (1 / 100)\<rparr>;
          (f1, h1) = bindFunction h0;
          h2 = h1\<lparr>cameraChanged := eventAdd (cameraChanged h1) f1\<rparr>;
          (f2, h3) = bindFunction h2;
          h4 = h3\<lparr>morphComplete := eventAdd (morphComplete h3) f2\<rparr>;
          (f3, h5) = bindFunction h4;
          h6 = h5\<lparr>windowResize := windowAdd (windowResize h5) f3\<rparr>
      in this\<lparr>viewer := h6\<rparr>)"

definition removeEventListeners :: "layer \<Rightarrow> layer" where
  "removeEventListeners this =
     (let (f1, h1) = bindFunction (viewer this);
          h2 = h1\<lparr>cameraChanged := eventRemove (cameraChanged h1) f1\<rparr>;
          (f2, h3) = bindFunction h2;
          h4 = h3\<lparr>morphComplete := eventRemove (morphComplete h3) f2\<rparr>;
          (f3, h5) = bindFunction h4;
          h6 = h5\<lparr>windowResize := windowRemove (windowResize h5) f3\<rparr>
      in this\<lparr>viewer := h6\<rparr>)"

section \<open>The layer's own notifications\<close>

definition addEventListener :: "WindLayerEventType \<Rightarrow> nat \<Rightarrow> layer \<Rightarrow> layer" where
  "addEventListener type callback this =
     (let m = (case eventListeners this type of
                 None \<Rightarrow> (eventListeners this)(type \<mapsto> [])
               | Some cbs \<Rightarrow> eventListeners this)
      in case m type of
           None \<Rightarrow> this\<lparr>eventListeners := m\<rparr>
         | Some cbs \<Rightarrow>
             this\<lparr>eventListeners := m(type \<mapsto> (if callback \<in> set cbs then cbs else cbs @ [callback]))\<rparr>)"

definition removeEventListener :: "WindLayerEventType \<Rightarrow> nat \<Rightarrow> layer \<Rightarrow> layer" where
  "removeEventListener type callback this =
     (case eventListeners this type of
        None \<Rightarrow> this
      | Some cbs \<Rightarrow> this\<lparr>eventListeners := (eventListeners this)(type \<mapsto> remove1 callback cbs)\<rparr>)"

definition dispatchEvent :: "WindLayerEventType \<Rightarrow> payload \<Rightarrow> layer \<Rightarrow> layer" where
  "dispatchEvent type data this =
     (case eventListeners this type of
        None \<Rightarrow> this
      | Some cbs \<Rightarrow>
          this\<lparr>viewer := (viewer this)
                 \<lparr>delivered := delivered (viewer this) @ map (\<lambda>callback. (callback, data)) cbs\<rparr>\<rparr>)"

section \<open>Life cycle and updates\<close>

definition requestRender :: "host \<Rightarrow> host" where
  "requestRender h = h\<lparr>renderRequests := renderRequests h + 1\<rparr>"

text \<open>\<open>add()\<close> and \<open>remove()\<close>\<close>

definition add_layer :: "layer \<Rightarrow> error + layer" where
  "add_layer this =
     (case particleSystem this of
        None \<Rightarrow> Inl TypeError
      | Some ps \<Rightarrow>
          Inr (this\<lparr>primitives := getPrimitives ps,
                    viewer := (viewer this)
                      \<lparr>scenePrimitives := scenePrimitives (viewer this) @ getPrimitives ps\<rparr>\<rparr>))"

definition remove_layer :: "layer \<Rightarrow> layer" where
  "remove_layer this =
     this\<lparr>viewer := (viewer this)
             \<lparr>scenePrimitives := fold remove1 (primitives this) (scenePrimitives (viewer this))\<rparr>,
          primitives := []\<rparr>"

text \<open>
  The constructor. \<open>engine\<close> stands for the drawable objects of the particle system that
  \<open>new WindParticleSystem(...)\<close> creates. The assignment \<open>this.show = true\<close> finds
  \<open>_show\<close> already true and does nothing.
\<close>

definition WindLayer_new :: "host \<Rightarrow> WindData \<Rightarrow> PartialOptions option \<Rightarrow> nat list \<Rightarrow> error + layer" where
  "WindLayer_new h wd po engine =
     (let this0 =
            \<lparr>showFlag = True,
             windData = processWindData wd,
             viewer = h,
             options = spreadOptions DefaultOptions po,
             particleSystem = None,
             viewerParameters =
               \<lparr>lonRange = \<lparr>cx = Fin (- 180), cy = Fin 180\<rparr>,
                latRange = \<lparr>cx = Fin (- 90), cy = Fin 90\<rparr>,
                pixelSize = Fin 1000,
                sceneMode = mode h\<rparr>,
             isDestroyedFlag = False,
             primitives = [],
             eventListeners = (\<lambda>type. None)\<rparr>;
          this1 = updateViewerParameters this0;
          this2 = this1\<lparr>particleSystem := Some \<lparr>getPrimitives = engine, received = []\<rparr>\<rparr>
      in case add_layer this2 of
           Inl e \<Rightarrow> Inl e
         | Inr this3 \<Rightarrow> Inr (setupEventListeners this3))"

text \<open>\<open>deepMerge\<close> comes from a module of its own and is a parameter here.\<close>

definition updateWindData :: "WindData \<Rightarrow> layer \<Rightarrow> error + layer" where
  "updateWindData data this =
     (if isDestroyedFlag this then Inr this
      else
        let this1 = this\<lparr>windData := processWindData data\<rparr>
        in case particleSystem this1 of
             None \<Rightarrow> Inl TypeError
           | Some ps \<Rightarrow>
               let this2 = this1\<lparr>particleSystem :=
                                   Some (ps\<lparr>received := received ps @ [UpdateWindData (windData this1)]\<rparr>)\<rparr>;
                   this3 = this2\<lparr>viewer := requestRender (viewer this2)\<rparr>
               in Inr (dispatchEvent DataChange (DataPayload (windData this3)) this3))"

definition updateOptions ::
  "(PartialOptions \<Rightarrow> WindLayerOptions \<Rightarrow> WindLayerOptions) \<Rightarrow> PartialOptions \<Rightarrow> layer \<Rightarrow> error + layer" where
  "updateOptions deepMerge opts this =
     (if isDestroyedFlag this then Inr this
      else
        let this1 = this\<lparr>options := deepMerge opts (options this)\<rparr>
        in case particleSystem this1 of
             None \<Rightarrow> Inl TypeError
           | Some ps \<Rightarrow>
               let this2 = this1\<lparr>particleSystem :=
                                   Some (ps\<lparr>received := received ps @ [ChangeOptions opts]\<rparr>)\<rparr>;
                   this3 = this2\<lparr>viewer := requestRender (viewer this2)\<rparr>
               in Inr (dispatchEvent OptionsChange (OptionsPayload (options this3)) this3))"

definition isDestroyed :: "layer \<Rightarrow> bool" where
  "isDestroyed this = isDestroyedFlag this"

definition destroy :: "layer \<Rightarrow> error + layer" where
  "destroy this =
     (let this1 = remove_layer this;
          this2 = removeEventListeners this1
      in case particleSystem this2 of
           None \<Rightarrow> Inl TypeError
         | Some ps \<Rightarrow>
             Inr (this2\<lparr>particleSystem := Some (ps\<lparr>received := received ps @ [DestroySystem]\<rparr>),
                        eventListeners := (\<lambda>type. None),
                        isDestroyedFlag := True\<rparr>))"

section \<open>Example inputs\<close>

text \<open>
  A field of 2 by 2 cells over the rectangle from (0, 0) to (10, 10), with one cell of wind
  (3, 4) and calm elsewhere, as raw data and as the normalized field.
\<close>

definition exampleData :: WindData where
  "exampleData =
     \<lparr>u = \<lparr>array = [Fin 3, Fin 0, Fin 0, Fin 0], amin = None, amax = None\<rparr>,
      v = \<lparr>array = [Fin 4, Fin 0, Fin 0, Fin 0], amin = None, amax = None\<rparr>,
      speed = None,
      mask = None,
      width = Fin 2,
      height = Fin 2,
      bounds = \<lparr>west = Fin 0, south = Fin 0, east = Fin 10, north = Fin 10\<rparr>\<rparr>"

definition exampleField :: RequiredWindData where
  "exampleField =
     \<lparr>ru = \<lparr>array = [Fin 3, Fin 0, Fin 0, Fin 0], amin = None, amax = None\<rparr>,
      rv = \<lparr>array = [Fin 4, Fin 0, Fin 0, Fin 0], amin = None, amax = None\<rparr>,
      rspeed = \<lparr>array = [Fin 5, Fin 0, Fin 0, Fin 0], amin = Some (Fin 5), amax = Some (Fin 5)\<rparr>,
      rmask = \<lparr>array = [Fin 1, Fin 1, Fin 1, Fin 1], amin = Some (Fin 1), amax = Some (Fin 1)\<rparr>,
      rwidth = Fin 2,
      rheight = Fin 2,
      rbounds = \<lparr>west = Fin 0, south = Fin 0, east = Fin 10, north = Fin 10\<rparr>\<rparr>"

text \<open>
  A camera that sees the rectangle from \<open>(w, s)\<close> to \<open>(e, n)\<close>: the left screen corners
  pick longitude \<open>w\<close>, the top corners latitude \<open>n\<close>. A camera whose top corners look
  past the horizon.
\<close>

definition rectangleView :: "real \<Rightarrow> real \<Rightarrow> real \<Rightarrow> real \<Rightarrow> jsnum \<times> jsnum \<Rightarrow> (jsnum \<times> jsnum) option" where
  "rectangleView w s e n corner =
     Some (if fst corner = Fin 0 then Fin w else Fin e, if snd corner = Fin 0 then Fin n else Fin s)"

definition horizonView :: "jsnum \<times> jsnum \<Rightarrow> (jsnum \<times> jsnum) option" where
  "horizonView corner = (if snd corner = Fin 0 then None else Some (Fin 5, Fin 5))"

definition exampleHost :: "(jsnum \<times> jsnum \<Rightarrow> (jsnum \<times> jsnum) option) \<Rightarrow> host" where
  "exampleHost view =
     \<lparr>percentageChanged = Fin (1 / 2),
      cameraChanged = [],
      morphComplete = [],
      windowResize = [],
      scenePrimitives = [],
      renderRequests = 0,
      mode = SCENE3D,
      clientWidth = Fin 800,
      clientHeight = Fin 600,
      pickEllipsoid = view,
      nextFunction = 0,
      delivered = []\<rparr>"

definition exampleLayer :: "(jsnum \<times> jsnum \<Rightarrow> (jsnum \<times> jsnum) option) \<Rightarrow> layer" where
  "exampleLayer view =
     \<lparr>showFlag = True,
      windData = exampleField,
      viewer = exampleHost view,
      options = DefaultOptions,
      particleSystem = Some \<lparr>getPrimitives = [1, 2], received = []\<rparr>,
      viewerParameters =
        \<lparr>lonRange = \<lparr>cx = Fin (- 180), cy = Fin 180\<rparr>,
         latRange = \<lparr>cx = Fin (- 90), cy = Fin 90\<rparr>,
         pixelSize = Fin 1000,
         sceneMode = SCENE2D\<rparr>,
      isDestroyedFlag = False,
      primitives = [1, 2],
      eventListeners = (\<lambda>type. None)\<rparr>"

text \<open>The listeners registered with the camera, the scene and the window.\<close>

definition registered :: "layer \<Rightarrow> nat list \<times> nat list \<times> nat list" where
  "registered this =
     (cameraChanged (viewer this), morphComplete (viewer this), windowResize (viewer this))"

text \<open>The magnitude of a wind vector, and the entries of a list that \<open>!== 0\<close> holds for.\<close>

definition magnitude :: "jsnum \<Rightarrow> jsnum \<Rightarrow> jsnum" where
  "magnitude a b = dsqrt (dadd (dmul a a) (dmul b b))"

definition nonzero :: "jsnum list \<Rightarrow> jsnum list" where
  "nonzero xs = filter (\<lambda>s. jne s (Fin 0)) xs"

definition speeds :: "jsnum list \<Rightarrow> jsnum list \<Rightarrow> nat \<Rightarrow> jsnum list" where
  "speeds ua va i =
     map (\<lambda>j. fround (magnitude (toNumber (readIdx ua j)) (toNumber (readIdx va j)))) [i..<length ua]"

text \<open>A field without wind.\<close>

definition calmData :: WindData where
  "calmData =
     \<lparr>u = \<lparr>array = [Fin 0, Fin 0], amin = None, amax = None\<rparr>,
      v = \<lparr>array = [Fin 0, Fin 0], amin = None, amax = None\<rparr>,
      speed = None,
      mask = None,
      width = Fin 2,
      height = Fin 1,
      bounds = \<lparr>west = Fin 0, south = Fin 0, east = Fin 10, north = Fin 10\<rparr>\<rparr>"

section \<open>Vocabulary of the properties\<close>

text \<open>\<open>a <= b\<close>, and a value within a closed range.\<close>

fun jle :: "jsnum \<Rightarrow> jsnum \<Rightarrow> bool" where
  "jle (Fin x) (Fin y) = (x \<le> y)"
| "jle NaN b = False"
| "jle a NaN = False"
| "jle NInf b = True"
| "jle (Fin x) PInf = True"
| "jle PInf PInf = True"
| "jle (Fin x) NInf = False"
| "jle PInf (Fin y) = False"
| "jle PInf NInf = False"

definition inRange :: "jsnum \<Rightarrow> jsnum \<Rightarrow> jsnum \<Rightarrow> bool" where
  "inRange lo hi x = (jle lo x \<and> jle x hi)"

text \<open>A number that the program can hold: a finite binary64 value.\<close>

definition isDouble :: "jsnum \<Rightarrow> bool" where
  "isDouble a = (isFin a \<and> toDouble a = a)"

text \<open>
  A field of \<open>W\<close> by \<open>H\<close> cells that satisfies the invariants of the data model and holds
  numbers of the language: bounds that are finite doubles with \<open>west < east\<close> and
  \<open>south < north\<close> and with a finite extent on each axis, a grid that is not empty and has
  fewer than \<open>2 ^ 53\<close> cells, and \<open>u\<close> and \<open>v\<close> arrays of \<open>W * H\<close> finite doubles.
\<close>

definition wellFormed :: "RequiredWindData \<Rightarrow> nat \<Rightarrow> nat \<Rightarrow> bool" where
  "wellFormed f W H =
     (isDouble (west (rbounds f)) \<and> isDouble (east (rbounds f)) \<and>
      isDouble (south (rbounds f)) \<and> isDouble (north (rbounds f)) \<and>
      jlt (west (rbounds f)) (east (rbounds f)) \<and> jlt (south (rbounds f)) (north (rbounds f)) \<and>
      isFin (dsub (east (rbounds f)) (west (rbounds f))) \<and>
      isFin (dsub (north (rbounds f)) (south (rbounds f))) \<and>
      rwidth f = Fin (real W) \<and> rheight f = Fin (real H) \<and> 0 < W \<and> 0 < H \<and> W * H < 2 ^ 53 \<and>
      length (array (ru f)) = W * H \<and> length (array (rv f)) = W * H \<and>
      list_all isDouble (array (ru f)) \<and> list_all isDouble (array (rv f)))"

text \<open>
  The states of a layer: the result of the constructor and, from there, what any sequence
  of calls of the layer's methods and of changes of the host leads to (the camera moves,
  the window is resized, the scene changes its mode, an event calls a registered listener,
  which is \<open>updateViewerParameters\<close>).
\<close>

inductive reachable :: "layer \<Rightarrow> bool" where
  constructed: "WindLayer_new h wd po engine = Inr this \<Longrightarrow> reachable this"
| host_changed: "reachable this \<Longrightarrow> reachable (this\<lparr>viewer := h\<rparr>)"
| recomputed: "reachable this \<Longrightarrow> reachable (updateViewerParameters this)"
| data_updated: "reachable this \<Longrightarrow> updateWindData data this = Inr this' \<Longrightarrow> reachable this'"
| options_updated:
    "reachable this \<Longrightarrow> updateOptions deepMerge opts this = Inr this' \<Longrightarrow> reachable this'"
| destroyed: "reachable this \<Longrightarrow> destroy this = Inr this' \<Longrightarrow> reachable this'"
| added: "reachable this \<Longrightarrow> add_layer this = Inr this' \<Longrightarrow> reachable this'"
| removed: "reachable this \<Longrightarrow> reachable (remove_layer this)"
| listener_added: "reachable this \<Longrightarrow> reachable (addEventListener type callback this)"
| listener_removed: "reachable this \<Longrightarrow> reachable (removeEventListener type callback this)"
| shown: "reachable this \<Longrightarrow> reachable (this\<lparr>showFlag := value\<rparr>)"

text \<open>
  The interpolation weights \<open>wx\<close> and \<open>wy\<close> of a query and the index of its nearest-floor
  cell, as \<open>getDataAtLonLat\<close> computes them.
\<close>

definition weightX :: "layer \<Rightarrow> jsnum \<Rightarrow> jsnum" where
  "weightX this lon = dsub (xNormOf this lon) (jfloor (xNormOf this lon))"

definition weightY :: "layer \<Rightarrow> jsnum \<Rightarrow> jsnum" where
  "weightY this lat = dsub (yNormOf this lat) (jfloor (yNormOf this lat))"

definition floorCell :: "layer \<Rightarrow> jsnum \<Rightarrow> jsnum \<Rightarrow> jsnum" where
  "floorCell this lon lat =
     dadd (dmul (jfloor (yNormOf this lat)) (rwidth (windData this))) (jfloor (xNormOf this lon))"

text \<open>
  Names for three expressions of \<open>getDataAtLonLat\<close>: the index of a cell, the neighbour of a
  row or column clamped to the last one, and the bilinear combination of four samples.
\<close>

definition cell :: "jsnum \<Rightarrow> jsnum \<Rightarrow> jsnum \<Rightarrow> jsnum" where
  "cell y w x = dadd (dmul y w) x"

definition nextCell :: "jsnum \<Rightarrow> jsnum \<Rightarrow> jsnum" where
  "nextCell x0 w = jmin (dadd x0 (Fin 1)) (dsub w (Fin 1))"

definition bilinear :: "jsnum \<Rightarrow> jsnum \<Rightarrow> jsnum \<Rightarrow> jsnum \<Rightarrow> jsnum \<Rightarrow> jsnum \<Rightarrow> jsnum" where
  "bilinear wx wy a00 a10 a01 a11 =
     dadd (dadd (dadd (dmul (dmul (dsub (Fin 1) wx) (dsub (Fin 1) wy)) a00)
                      (dmul (dmul wx (dsub (Fin 1) wy)) a10))
                (dmul (dmul (dsub (Fin 1) wx) wy) a01))
          (dmul (dmul wx wy) a11)"

text \<open>
  A field of a single cell, and a field of one column and two rows whose \<open>u\<close> differs
  between the rows.
\<close>

definition pointField :: RequiredWindData where
  "pointField =
     \<lparr>ru = \<lparr>array = [Fin 3], amin = None, amax = None\<rparr>,
      rv = \<lparr>array = [Fin 4], amin = None, amax = None\<rparr>,
      rspeed = \<lparr>array = [Fin 5], amin = Some (Fin 5), amax = Some (Fin 5)\<rparr>,
      rmask = \<lparr>array = [Fin 1], amin = Some (Fin 1), amax = Some (Fin 1)\<rparr>,
      rwidth = Fin 1,
      rheight = Fin 1,
      rbounds = \<lparr>west = Fin 0, south = Fin 0, east = Fin 10, north = Fin 10\<rparr>\<rparr>"

definition columnField :: RequiredWindData where
  "columnField =
     \<lparr>ru = \<lparr>array = [Fin 0, Fin 10], amin = None, amax = None\<rparr>,
      rv = \<lparr>array = [Fin 0, Fin 0], amin = None, amax = None\<rparr>,
      rspeed = \<lparr>array = [Fin 0, Fin 10], amin = Some (Fin 10), amax = Some (Fin 10)\<rparr>,
      rmask = \<lparr>array = [Fin 1, Fin 1], amin = Some (Fin 1), amax = Some (Fin 1)\<rparr>,
      rwidth = Fin 1,
      rheight = Fin 2,
      rbounds = \<lparr>west = Fin 0, south = Fin 0, east = Fin 10, north = Fin 10\<rparr>\<rparr>"

text \<open>
  Raw data of a single cell whose wind (16777215, 8192) has the magnitude 16777217, and a
  field of one row and 23 columns over the longitudes 0 to 22 whose \<open>u\<close> is the number of
  the column.
\<close>

definition tripleData :: WindData where
  "tripleData =
     \<lparr>u = \<lparr>array = [Fin 16777215], amin = None, amax = None\<rparr>,
      v = \<lparr>array = [Fin 8192], amin = None, amax = None\<rparr>,
      speed = None,
      mask = None,
      width = Fin 1,
      height = Fin 1,
      bounds = \<lparr>west = Fin 0, south = Fin 0, east = Fin 10, north = Fin 10\<rparr>\<rparr>"

definition rowField :: RequiredWindData where
  "rowField =
     \<lparr>ru = \<lparr>array = [Fin 0, Fin 1, Fin 2, Fin 3, Fin 4, Fin 5, Fin 6, Fin 7, Fin 8, Fin 9, Fin 10,
                      Fin 11, Fin 12, Fin 13, Fin 14, Fin 15, Fin 16, Fin 17, Fin 18, Fin 19, Fin 20,
                      Fin 21, Fin 22],
            amin = None, amax = None\<rparr>,
      rv = \<lparr>array = replicate 23 (Fin 0), amin = None, amax = None\<rparr>,
      rspeed = \<lparr>array = [Fin 0, Fin 1, Fin 2, Fin 3, Fin 4, Fin 5, Fin 6, Fin 7, Fin 8, Fin 9, Fin 10,
                          Fin 11, Fin 12, Fin 13, Fin 14, Fin 15, Fin 16, Fin 17, Fin 18, Fin 19,
                          Fin 20, Fin 21, Fin 22],
                amin = Some (Fin 1), amax = Some (Fin 22)\<rparr>,
      rmask = \<lparr>array = replicate 23 (Fin 1), amin = Some (Fin 1), amax = Some (Fin 1)\<rparr>,
      rwidth = Fin 23,
      rheight = Fin 1,
      rbounds = \<lparr>west = Fin 0, south = Fin 0, east = Fin 22, north = Fin 1\<rparr>\<rparr>"

text \<open>The magnitude of the value that \<open>roundBinary\<close> rounds to.\<close>

definition rmag :: "nat \<Rightarrow> real \<Rightarrow> nat \<Rightarrow> real \<Rightarrow> real" where
  "rmag p q0 n a = of_int (roundEven (a / quantum p n q0 a)) * quantum p n q0 a"

section \<open>Facts about rounding\<close>

lemma roundEven_int [simp]: "roundEven (of_int m) = m"
  by (simp add: roundEven_def)

lemma roundEven_mono: "s \<le> t \<Longrightarrow> roundEven s \<le> roundEven t"
proof -
  assume st: "s \<le> t"
  then have f: "\<lfloor>s\<rfloor> \<le> \<lfloor>t\<rfloor>" by (rule floor_mono)
  have bs: "roundEven s \<le> \<lfloor>s\<rfloor> + 1" and bt: "\<lfloor>t\<rfloor> \<le> roundEven t"
    by (simp_all add: roundEven_def)
  show ?thesis
  proof (cases "\<lfloor>s\<rfloor> = \<lfloor>t\<rfloor>")
    case True
    with st have "s - of_int \<lfloor>s\<rfloor> \<le> t - of_int \<lfloor>t\<rfloor>" by simp
    with True show ?thesis by (auto simp: roundEven_def)
  next
    case False
    with f have "\<lfloor>s\<rfloor> + 1 \<le> \<lfloor>t\<rfloor>" by simp
    with bs bt show ?thesis by linarith
  qed
qed

lemma quantum_form: "\<exists>k \<le> n. quantum p n q a = q * 2 ^ k"
proof (induction n arbitrary: q)
  case 0
  then show ?case by simp
next
  case (Suc n)
  show ?case
  proof (cases "a < 2 ^ p * q")
    case True
    then have "quantum p (Suc n) q a = q * 2 ^ 0" by simp
    then show ?thesis by blast
  next
    case False
    from Suc [of "2 * q"] obtain k where "k \<le> n" "quantum p n (2 * q) a = 2 * q * 2 ^ k" by blast
    with False have "Suc k \<le> Suc n" "quantum p (Suc n) q a = q * 2 ^ Suc k" by simp_all
    then show ?thesis by blast
  qed
qed

lemma quantum_upper:
  "0 < q \<Longrightarrow> quantum p n q a < q * 2 ^ n \<Longrightarrow> a < 2 ^ p * quantum p n q a"
proof (induction n arbitrary: q)
  case 0
  then show ?case by simp
next
  case (Suc n)
  show ?case
  proof (cases "a < 2 ^ p * q")
    case True
    then show ?thesis by simp
  next
    case False
    with Suc.prems have "quantum p n (2 * q) a < 2 * q * 2 ^ n" by simp
    with Suc.IH [of "2 * q"] Suc.prems(1) False show ?thesis by simp
  qed
qed

lemma quantum_lower:
  "quantum p n q a \<noteq> q \<Longrightarrow> 2 ^ p * quantum p n q a \<le> 2 * a"
proof (induction n arbitrary: q)
  case 0
  then show ?case by simp
next
  case (Suc n)
  show ?case
  proof (cases "a < 2 ^ p * q")
    case True
    with Suc.prems show ?thesis by simp
  next
    case False
    show ?thesis
    proof (cases "quantum p n (2 * q) a = 2 * q")
      case True
      with False show ?thesis by simp
    next
      case ne: False
      from Suc.IH [OF ne] False show ?thesis by simp
    qed
  qed
qed

lemma quantum_mono: "0 < q \<Longrightarrow> a \<le> b \<Longrightarrow> quantum p n q a \<le> quantum p n q b"
proof (induction n arbitrary: q)
  case 0
  then show ?case by simp
next
  case (Suc n)
  have ge: "2 * q \<le> quantum p n (2 * q) b"
  proof -
    from quantum_form [of n p "2 * q" b] obtain k where "quantum p n (2 * q) b = 2 * q * 2 ^ k" by blast
    moreover have "(1::real) \<le> 2 ^ k" by simp
    ultimately show ?thesis using Suc.prems(1) by (simp add: mult_le_cancel_left1)
  qed
  show ?case
  proof (cases "b < 2 ^ p * q")
    case True
    with Suc.prems have "a < 2 ^ p * q" by simp
    with True show ?thesis by simp
  next
    case False
    show ?thesis
    proof (cases "a < 2 ^ p * q")
      case True
      with False ge Suc.prems(1) show ?thesis by simp
    next
      case na: False
      from Suc.IH [of "2 * q"] Suc.prems na False show ?thesis by simp
    qed
  qed
qed

lemma quantum_pos: "0 < q \<Longrightarrow> 0 < quantum p n q a"
  using quantum_form [of n p q a] by auto

lemma roundBinary_rmag:
  "roundBinary p q0 n x =
     (if 2 ^ p * (q0 * 2 ^ n) \<le> rmag p q0 n \<bar>x\<bar> then inf_of (0 < x)
      else Fin (if x < 0 then - rmag p q0 n \<bar>x\<bar> else rmag p q0 n \<bar>x\<bar>))"
  by (simp add: roundBinary_def rmag_def Let_def)

lemma roundEven_zero [simp]: "roundEven 0 = 0"
  by (simp add: roundEven_def)

lemma roundEven_nonneg: "0 \<le> t \<Longrightarrow> 0 \<le> roundEven t"
  using roundEven_mono [of 0 t] by simp

lemma rmag_nonneg: "0 < q0 \<Longrightarrow> 0 \<le> a \<Longrightarrow> 0 \<le> rmag p q0 n a"
  using quantum_pos [of q0 p n a]
  by (simp add: rmag_def roundEven_nonneg)

lemma rmag_zero: "0 < q0 \<Longrightarrow> rmag p q0 n 0 = 0"
  by (simp add: rmag_def)

lemma rmag_mono:
  assumes q0: "0 < q0" and ab: "0 \<le> a" "a \<le> b" and pp: "0 < p"
  shows "rmag p q0 n a \<le> rmag p q0 n b"
proof -
  let ?qa = "quantum p n q0 a" and ?qb = "quantum p n q0 b"
  have pa: "0 < ?qa" and pb: "0 < ?qb" using q0 by (simp_all add: quantum_pos)
  have le: "?qa \<le> ?qb" using q0 ab(2) by (rule quantum_mono)
  show ?thesis
  proof (cases "?qa = ?qb")
    case True
    have "a / ?qb \<le> b / ?qb" using ab pb by (simp add: divide_right_mono)
    then have "roundEven (a / ?qb) \<le> roundEven (b / ?qb)" by (rule roundEven_mono)
    then have "(of_int (roundEven (a / ?qb)) :: real) \<le> of_int (roundEven (b / ?qb))" by simp
    then show ?thesis using pb True by (simp add: rmag_def mult_right_mono)
  next
    case False
    with le have lt: "?qa < ?qb" by simp
    obtain ka where ka: "ka \<le> n" "?qa = q0 * 2 ^ ka" using quantum_form [of n p q0 a] by blast
    obtain kb where kb: "kb \<le> n" "?qb = q0 * 2 ^ kb" using quantum_form [of n p q0 b] by blast
    from lt ka kb q0 have "(2::real) ^ ka < 2 ^ kb" by simp
    then have kk: "ka < kb" by simp
    then have "(2::real) ^ Suc ka \<le> 2 ^ kb" by (intro power_increasing) simp_all
    then have dbl: "2 * ?qa \<le> ?qb" using ka kb q0 by simp
    from kk kb(1) have "ka < n" by simp
    then have "(2::real) ^ ka < 2 ^ n" by simp
    then have "?qa < q0 * 2 ^ n" using ka q0 by simp
    from quantum_upper [OF q0 this] have "a / ?qa \<le> 2 ^ p" using pa by (simp add: divide_le_eq)
    then have "roundEven (a / ?qa) \<le> roundEven (of_int (2 ^ p))" using roundEven_mono by auto
    then have "(of_int (roundEven (a / ?qa)) :: real) \<le> 2 ^ p"
      by (metis of_int_le_iff of_int_numeral of_int_power roundEven_int)
    then have ua: "rmag p q0 n a \<le> 2 ^ p * ?qa" using pa by (simp add: rmag_def mult_right_mono)
    have "q0 \<le> ?qa" using ka q0 by (simp add: mult_le_cancel_left1)
    with lt have "?qb \<noteq> q0" by simp
    from quantum_lower [OF this] have "2 ^ p / 2 \<le> b / ?qb" using pb by (simp add: le_divide_eq)
    moreover have p1: "(2::real) ^ p / 2 = of_int (2 ^ (p - 1))" if "0 < p"
      using that by (cases p) simp_all
    ultimately have lb: "2 ^ p / 2 * ?qb \<le> rmag p q0 n b"
    proof -
      have "roundEven (of_int (2 ^ (p - 1))) \<le> roundEven (b / ?qb)"
        using \<open>2 ^ p / 2 \<le> b / ?qb\<close> p1 [OF pp] by (intro roundEven_mono) simp
      then have "(of_int (2 ^ (p - 1)) :: real) \<le> of_int (roundEven (b / ?qb))"
        by (simp only: roundEven_int of_int_le_iff)
      then show ?thesis using pb p1 [OF pp] by (simp add: rmag_def mult_right_mono)
    qed
    have "2 ^ p * ?qa = 2 ^ p / 2 * (2 * ?qa)" by simp
    also have "\<dots> \<le> 2 ^ p / 2 * ?qb" using dbl by (intro mult_left_mono) simp_all
    finally show ?thesis using ua lb by linarith
  qed
qed

lemma roundBinary_mono:
  assumes q0: "0 < q0" and pp: "0 < p" and xy: "x \<le> y"
  shows "jle (roundBinary p q0 n x) (roundBinary p q0 n y)"
proof -
  let ?T = "2 ^ p * (q0 * 2 ^ n)"
  have T: "0 < ?T" using q0 by simp
  have z: "rmag p q0 n 0 = 0" using q0 by (rule rmag_zero)
  consider "0 \<le> x" | "x < 0" "0 \<le> y" | "y < 0" by linarith
  then show ?thesis
  proof cases
    case 1
    with xy have m: "rmag p q0 n x \<le> rmag p q0 n y" using q0 pp by (intro rmag_mono) simp_all
    have "0 < x" if "?T \<le> rmag p q0 n x"
      using that T z 1 by (cases "x = 0") auto
    moreover have "0 < y" if "?T \<le> rmag p q0 n y"
      using that T z 1 xy by (cases "y = 0") auto
    ultimately show ?thesis using 1 xy m
      by (auto simp: roundBinary_rmag inf_of_def)
  next
    case 2
    have "0 \<le> rmag p q0 n \<bar>x\<bar>" "0 \<le> rmag p q0 n \<bar>y\<bar>"
      using q0 by (simp_all add: rmag_nonneg)
    moreover have "0 < y" if "?T \<le> rmag p q0 n \<bar>y\<bar>"
      using that T z 2 by (cases "y = 0") auto
    ultimately show ?thesis using 2
      by (auto simp: roundBinary_rmag inf_of_def)
  next
    case 3
    with xy have "0 \<le> \<bar>y\<bar>" "\<bar>y\<bar> \<le> \<bar>x\<bar>" by simp_all
    then have "rmag p q0 n \<bar>y\<bar> \<le> rmag p q0 n \<bar>x\<bar>" using q0 pp by (intro rmag_mono)
    then show ?thesis using 3 xy
      by (auto simp: roundBinary_rmag inf_of_def)
  qed
qed

lemma rmag_exact:
  assumes q0: "0 < q0" and m: "m < 2 ^ p" and j: "j \<le> n"
  shows "rmag p q0 n (of_nat m * q0 * 2 ^ j) = of_nat m * q0 * 2 ^ j"
proof -
  let ?a = "of_nat m * q0 * 2 ^ j :: real"
  let ?q = "quantum p n q0 ?a"
  obtain k where k: "k \<le> n" "?q = q0 * 2 ^ k" using quantum_form [of n p q0 ?a] by blast
  have "k \<le> j"
  proof (rule ccontr)
    assume "\<not> k \<le> j"
    then have kj: "j < k" by simp
    then have "(1::real) < 2 ^ k" by simp
    then have "?q \<noteq> q0" using k q0 by simp
    from quantum_lower [OF this] have "2 ^ p * (q0 * 2 ^ k) \<le> 2 * (of_nat m * q0 * 2 ^ j)"
      using k by simp
    then have "(2::real) ^ p * 2 ^ k \<le> of_nat m * 2 ^ Suc j"
      using q0 by (simp add: mult.assoc mult.left_commute [of _ q0])
    moreover have "(of_nat m :: real) < 2 ^ p" using m
      by (metis of_nat_less_iff of_nat_numeral of_nat_power)
    then have "(of_nat m :: real) * 2 ^ Suc j < 2 ^ p * 2 ^ Suc j" by simp
    moreover have "(2::real) ^ Suc j \<le> 2 ^ k" using kj by (intro power_increasing) simp_all
    then have "(2::real) ^ p * 2 ^ Suc j \<le> 2 ^ p * 2 ^ k" by simp
    ultimately show False by linarith
  qed
  then obtain d where d: "j = k + d" using le_Suc_ex by blast
  have "?a / ?q = ?a / (q0 * 2 ^ k)" by (simp only: k(2))
  also have "\<dots> = of_int (int m * 2 ^ d)"
    using q0 by (simp add: d power_add)
  finally have "roundEven (?a / ?q) = int m * 2 ^ d" by (simp only: roundEven_int)
  then have "rmag p q0 n ?a = of_int (int m * 2 ^ d) * ?q" by (simp add: rmag_def)
  also have "\<dots> = of_int (int m * 2 ^ d) * (q0 * 2 ^ k)" by (simp only: k(2))
  also have "\<dots> = ?a" by (simp add: d power_add)
  finally show ?thesis .
qed

lemma roundBinary_exact:
  assumes q0: "0 < q0" and m: "m < 2 ^ p" and j: "j \<le> n"
  shows "roundBinary p q0 n (of_nat m * q0 * 2 ^ j) = Fin (of_nat m * q0 * 2 ^ j)"
    and "roundBinary p q0 n (- (of_nat m * q0 * 2 ^ j)) = Fin (- (of_nat m * q0 * 2 ^ j))"
proof -
  let ?a = "of_nat m * q0 * 2 ^ j :: real"
  have a0: "0 \<le> ?a" using q0 by simp
  have "(of_nat m :: real) < 2 ^ p" using m
    by (metis of_nat_less_iff of_nat_numeral of_nat_power)
  then have "of_nat m * (q0 * 2 ^ j) < 2 ^ p * (q0 * 2 ^ j)" using q0 by simp
  also have "\<dots> \<le> 2 ^ p * (q0 * 2 ^ n)" using q0 j by (simp add: power_increasing)
  finally have lt: "\<not> 2 ^ p * (q0 * 2 ^ n) \<le> ?a" by (simp add: mult.assoc)
  show pos: "roundBinary p q0 n ?a = Fin ?a"
    using a0 lt by (simp add: roundBinary_rmag rmag_exact [OF assms] del: of_nat_mult)
  show "roundBinary p q0 n (- ?a) = Fin (- ?a)"
  proof (cases "?a = 0")
    case True
    have "roundBinary p q0 n (- ?a) = roundBinary p q0 n ?a" by (simp only: True minus_zero)
    also have "\<dots> = Fin ?a" by (rule pos)
    also have "\<dots> = Fin (- ?a)" by (simp only: True minus_zero)
    finally show ?thesis .
  next
    case False
    with a0 have "0 < ?a" by (simp only: less_le) simp
    then show ?thesis
      using lt rmag_exact [OF assms] by (simp add: roundBinary_rmag del: of_nat_mult)
  qed
qed

lemma quantum_unique:
  assumes q0: "0 < q0" and k: "k \<le> n"
    and up: "k < n \<Longrightarrow> a < 2 ^ p * (q0 * 2 ^ k)"
    and lo: "0 < k \<Longrightarrow> 2 ^ p * (q0 * 2 ^ k) \<le> 2 * a"
  shows "quantum p n q0 a = q0 * 2 ^ k"
proof -
  obtain k' where k': "k' \<le> n" "quantum p n q0 a = q0 * 2 ^ k'"
    using quantum_form [of n p q0 a] by blast
  have "k' = k"
  proof (rule ccontr)
    assume ne: "k' \<noteq> k"
    show False
    proof (cases "k' < k")
      case True
      then have "k' < n" using k by simp
      then have "(2::real) ^ k' < 2 ^ n" by simp
      then have "quantum p n q0 a < q0 * 2 ^ n" using k' q0 by simp
      from quantum_upper [OF q0 this] have a: "a < 2 ^ p * (q0 * 2 ^ k')" using k' by simp
      from True have "0 < k" by simp
      from lo [OF this] a have "2 ^ p * (q0 * 2 ^ k) < 2 * (2 ^ p * (q0 * 2 ^ k'))" by linarith
      then have "(2::real) ^ k < 2 ^ Suc k'" using q0 by simp
      then have "k < Suc k'" by (simp only: power_strict_increasing_iff) 
      with True show False by simp
    next
      case False
      with ne have gt: "k < k'" by simp
      then have "(1::real) < 2 ^ k'" by simp
      then have "quantum p n q0 a \<noteq> q0" using k' q0 by simp
      from quantum_lower [OF this] have a: "2 ^ p * (q0 * 2 ^ k') \<le> 2 * a" using k' by simp
      from gt k' have "k < n" by simp
      from up [OF this] a have "2 ^ p * (q0 * 2 ^ k') < 2 * (2 ^ p * (q0 * 2 ^ k))" by linarith
      then have "(2::real) ^ k' < 2 ^ Suc k" using q0 by simp
      then have "k' < Suc k" by (simp only: power_strict_increasing_iff)
      with gt show False by simp
    qed
  qed
  with k' show ?thesis by simp
qed

lemma representable_multiple:
  assumes "roundBinary p q0 n x = Fin x"
  shows "\<exists>i :: int. x = of_int i * q0"
proof -
  obtain k where k: "quantum p n q0 \<bar>x\<bar> = q0 * 2 ^ k" using quantum_form [of n p q0 "\<bar>x\<bar>"] by blast
  define r where "r = roundEven (\<bar>x\<bar> / quantum p n q0 \<bar>x\<bar>)"
  have m: "rmag p q0 n \<bar>x\<bar> = of_int (r * 2 ^ k) * q0"
    by (simp add: rmag_def r_def k)
  from assms have "x = (if x < 0 then - rmag p q0 n \<bar>x\<bar> else rmag p q0 n \<bar>x\<bar>)"
    by (auto simp: roundBinary_rmag inf_of_def split: if_splits)
  then have "x = of_int (if x < 0 then - (r * 2 ^ k) else r * 2 ^ k) * q0"
    by (simp only: m) (simp split: if_splits)
  then show ?thesis by blast
qed

lemma roundBinary_positive:
  assumes q0: "0 < q0" and pp: "0 < p" and i: "0 < i" and r: "roundBinary p q0 n (of_int i * q0) = Fin d"
  shows "0 < d"
proof -
  have "(2::nat) ^ 0 < 2 ^ p" using pp by (intro power_strict_increasing) simp_all
  then have "(1::nat) < 2 ^ p" by simp
  from roundBinary_exact(1) [OF q0 this, of 0 n] have e: "roundBinary p q0 n q0 = Fin q0" by simp
  have "(1::real) \<le> of_int i" using i by simp
  then have "q0 \<le> of_int i * q0" using q0 by simp
  from roundBinary_mono [OF q0 pp this, of n] have "q0 \<le> d" by (simp add: e r)
  with q0 show ?thesis by simp
qed

lemma doubleQuantum_pos: "0 < doubleQuantum"
  by (simp add: doubleQuantum_def)

lemma singleQuantum_pos: "0 < singleQuantum"
  by (simp add: singleQuantum_def)

lemma power_scale:
  fixes N k :: nat
  assumes "k \<le> N"
  shows "1 / 2 ^ N * 2 ^ (N - k) = (1::real) / 2 ^ k"
proof -
  from assms have "N = (N - k) + k" by simp
  then have "(2::real) ^ N = 2 ^ (N - k) * 2 ^ k" by (metis power_add)
  then show ?thesis by simp
qed

lemma doubleQuantum_scale: "k \<le> 1074 \<Longrightarrow> doubleQuantum * 2 ^ (1074 - k) = 1 / 2 ^ k"
  unfolding doubleQuantum_def by (rule power_scale)

lemma singleQuantum_scale: "k \<le> 149 \<Longrightarrow> singleQuantum * 2 ^ (149 - k) = 1 / 2 ^ k"
  unfolding singleQuantum_def by (rule power_scale)

lemma toDouble_mono: "x \<le> y \<Longrightarrow> jle (toDouble (Fin x)) (toDouble (Fin y))"
  by (simp add: toDouble.simps(1) roundBinary_mono doubleQuantum_pos)

lemma toDouble_dyadic:
  assumes "m < 2 ^ 53" "k \<le> 1074"
  shows "toDouble (Fin (real m / 2 ^ k)) = Fin (real m / 2 ^ k)"
    and "toDouble (Fin (- (real m / 2 ^ k))) = Fin (- (real m / 2 ^ k))"
proof -
  have e: "real m * doubleQuantum * 2 ^ (1074 - k) = real m / 2 ^ k"
    using doubleQuantum_scale [OF assms(2)] by (simp add: mult.assoc)
  have j: "1074 - k \<le> (2045::nat)" by simp
  from roundBinary_exact [OF doubleQuantum_pos assms(1) j]
  show "toDouble (Fin (real m / 2 ^ k)) = Fin (real m / 2 ^ k)"
    and "toDouble (Fin (- (real m / 2 ^ k))) = Fin (- (real m / 2 ^ k))"
    by (simp_all only: e toDouble.simps(1))
qed

lemma toDouble_nat: "m < 2 ^ 53 \<Longrightarrow> toDouble (Fin (real m)) = Fin (real m)"
  using toDouble_dyadic(1) [of m 0] by simp

lemma toDouble_int:
  assumes "\<bar>i\<bar> < 2 ^ 53"
  shows "toDouble (Fin (of_int i)) = Fin (of_int i)"
proof (cases "0 \<le> i")
  case True
  then have "nat i < 2 ^ 53" using assms by (simp add: nat_less_iff)
  from toDouble_nat [OF this] True show ?thesis by simp
next
  case False
  then have "nat (- i) < 2 ^ 53" using assms by (simp add: nat_less_iff)
  from toDouble_dyadic(2) [OF this, of 0] False show ?thesis by simp
qed

lemma toDouble_zero [simp]: "toDouble (Fin 0) = Fin 0"
  using toDouble_nat [of 0] by simp

lemma toDouble_one [simp]: "toDouble (Fin 1) = Fin 1"
  using toDouble_nat [of 1] by simp

lemma toDouble_numeral [simp]:
  "(numeral c :: nat) < 2 ^ 53 \<Longrightarrow> toDouble (Fin (numeral c)) = Fin (numeral c)"
  using toDouble_nat [of "numeral c"] by simp

lemma toDouble_multiple:
  "toDouble (Fin x) = Fin x \<Longrightarrow> \<exists>i :: int. x = of_int i * doubleQuantum"
  unfolding toDouble.simps(1) by (rule representable_multiple)

lemma int_multiple: "\<exists>i :: int. of_int z = of_int i * doubleQuantum"
proof -
  have "of_int z = of_int (z * 2 ^ 1074) * doubleQuantum"
    using doubleQuantum_scale [of 0] by (simp add: mult.assoc)
  then show ?thesis by blast
qed

lemma toDouble_positive:
  assumes "x = of_int i * doubleQuantum" "0 < x" "toDouble (Fin x) = Fin d"
  shows "0 < d"
proof -
  from assms(1,2) have "0 < i" using doubleQuantum_pos by (simp add: zero_less_mult_iff)
  from roundBinary_positive [OF doubleQuantum_pos _ this, of 53 2045 d] assms(1,3)
  show ?thesis by (simp add: toDouble.simps(1))
qed

lemma fround_dyadic:
  assumes "m < 2 ^ 24" "k \<le> 149"
  shows "fround (Fin (real m / 2 ^ k)) = Fin (real m / 2 ^ k)"
proof -
  have e: "real m * singleQuantum * 2 ^ (149 - k) = real m / 2 ^ k"
    using singleQuantum_scale [OF assms(2)] by (simp add: mult.assoc)
  have j: "149 - k \<le> (253::nat)" by simp
  from roundBinary_exact(1) [OF singleQuantum_pos assms(1) j]
  show ?thesis by (simp only: e fround.simps(1))
qed

lemma fround_zero [simp]: "fround (Fin 0) = Fin 0"
  using fround_dyadic [of 0 0] by simp

lemma fround_one [simp]: "fround (Fin 1) = Fin 1"
  using fround_dyadic [of 1 0] by simp

lemma fround_numeral [simp]:
  "(numeral c :: nat) < 2 ^ 24 \<Longrightarrow> fround (Fin (numeral c)) = Fin (numeral c)"
  using fround_dyadic [of "numeral c" 0] by simp

lemma power_unscale: "1 / 2 ^ N * 2 ^ (N + k) = (2::real) ^ k"
  by (simp add: power_add)

lemma roundEven_near:
  assumes "of_int m - 1 / 2 < t" "t < of_int m + 1 / 2"
  shows "roundEven t = m"
proof (cases "of_int m \<le> t")
  case True
  then have f: "\<lfloor>t\<rfloor> = m" using assms(2) by (intro floor_unique) simp_all
  show ?thesis using assms(2) by (simp add: roundEven_def f)
next
  case False
  then have f: "\<lfloor>t\<rfloor> = m - 1" using assms(1) by (intro floor_unique) simp_all
  show ?thesis using assms(1) by (simp add: roundEven_def f)
qed

lemma roundBinary_multiple:
  assumes "roundBinary p q0 n x = Fin y"
  shows "\<exists>i :: int. y = of_int i * q0"
proof -
  obtain k where k: "quantum p n q0 \<bar>x\<bar> = q0 * 2 ^ k" using quantum_form [of n p q0 "\<bar>x\<bar>"] by blast
  define r where "r = roundEven (\<bar>x\<bar> / quantum p n q0 \<bar>x\<bar>)"
  have m: "rmag p q0 n \<bar>x\<bar> = of_int (r * 2 ^ k) * q0"
    by (simp add: rmag_def r_def k)
  from assms have "y = (if x < 0 then - rmag p q0 n \<bar>x\<bar> else rmag p q0 n \<bar>x\<bar>)"
    by (auto simp: roundBinary_rmag inf_of_def split: if_splits)
  then have "y = of_int (if x < 0 then - (r * 2 ^ k) else r * 2 ^ k) * q0"
    by (simp only: m) (simp split: if_splits)
  then show ?thesis by blast
qed

lemma toDouble_result_multiple:
  "toDouble (Fin x) = Fin y \<Longrightarrow> \<exists>i :: int. y = of_int i * doubleQuantum"
  unfolding toDouble.simps(1) by (rule roundBinary_multiple)

lemma toDouble_between:
  assumes "lo \<le> x" "x \<le> hi" "toDouble (Fin lo) = Fin lo'" "toDouble (Fin hi) = Fin hi'"
  shows "\<exists>y. toDouble (Fin x) = Fin y \<and> lo' \<le> y \<and> y \<le> hi'"
proof -
  from toDouble_mono [OF assms(1)] toDouble_mono [OF assms(2)]
  have "jle (Fin lo') (toDouble (Fin x))" "jle (toDouble (Fin x)) (Fin hi')"
    by (simp_all add: assms(3,4))
  then show ?thesis by (cases "toDouble (Fin x)") simp_all
qed

lemma toDouble_zero_only:
  assumes "x = of_int i * doubleQuantum" "0 \<le> x" "toDouble (Fin x) = Fin 0"
  shows "x = 0"
proof (rule ccontr)
  assume "x \<noteq> 0"
  with assms(2) have "0 < x" by simp
  from toDouble_positive [OF assms(1) this assms(3)] show False by simp
qed

lemma doubleQuantum_top: "doubleQuantum * 2 ^ 2045 = 2 ^ 971"
  unfolding doubleQuantum_def using power_unscale [of 1074 971] by simp

lemma toDouble_at:
  assumes j: "j \<le> 1074" and lo: "j < 1074 \<Longrightarrow> 2 ^ 53 \<le> 2 * (a * 2 ^ j)"
    and up: "a * 2 ^ j < 2 ^ 53" and a: "0 \<le> a"
  shows "toDouble (Fin a) = Fin (of_int (roundEven (a * 2 ^ j)) / 2 ^ j)"
proof -
  have sc: "doubleQuantum * 2 ^ (1074 - j) = 1 / 2 ^ j" by (rule doubleQuantum_scale [OF j])
  have q: "quantum 53 2045 doubleQuantum a = doubleQuantum * 2 ^ (1074 - j)"
  proof (rule quantum_unique)
    show "0 < doubleQuantum" by (rule doubleQuantum_pos)
    show "1074 - j \<le> (2045::nat)" by simp
    show "a < 2 ^ 53 * (doubleQuantum * 2 ^ (1074 - j))"
      unfolding sc using up by (simp add: field_simps)
    show "2 ^ 53 * (doubleQuantum * 2 ^ (1074 - j)) \<le> 2 * a" if "0 < 1074 - j"
    proof -
      from that have "j < 1074" by simp
      from lo [OF this] show ?thesis unfolding sc by (simp add: field_simps)
    qed
  qed
  define m where "m = roundEven (a * 2 ^ j)"
  have "roundEven (a * 2 ^ j) \<le> roundEven (of_int (2 ^ 53))"
    using up by (intro roundEven_mono) simp
  then have mle: "m \<le> 2 ^ 53" unfolding m_def by (simp only: roundEven_int)
  have small: "real_of_int m * (1 / 2 ^ j) < 2 ^ 53 * 2 ^ 971"
  proof -
    have "real_of_int m * (1 / 2 ^ j) \<le> 2 ^ 53 * (1 / 2 ^ j)"
      using mle by (intro mult_right_mono) (simp_all add: of_int_le_iff [of m "2 ^ 53", where ?'a = real, simplified])
    also have "\<dots> \<le> 2 ^ 53 * 1"
      by (intro mult_left_mono) (simp_all add: divide_le_eq)
    also have "\<dots> < 2 ^ 53 * (2::real) ^ 971" by simp
    finally show ?thesis .
  qed
  have ab: "\<bar>a\<bar> = a" using a by simp
  have div: "a / (1 / 2 ^ j) = a * 2 ^ j" by simp
  have "roundBinary 53 doubleQuantum 2045 a = Fin (real_of_int m * (1 / 2 ^ j))"
    unfolding roundBinary_def Let_def ab q sc div doubleQuantum_top m_def [symmetric]
    using small a by simp
  then show ?thesis by (simp add: toDouble.simps(1) m_def)
qed

lemma toDouble_fractions:
  "toDouble (Fin (1 / 2)) = Fin (1 / 2)"
  "toDouble (Fin (1 / 4)) = Fin (1 / 4)"
  "toDouble (Fin (3 / 4)) = Fin (3 / 4)"
  "toDouble (Fin (5 / 4)) = Fin (5 / 4)"
  "toDouble (Fin (9 / 16)) = Fin (9 / 16)"
  "toDouble (Fin (25 / 16)) = Fin (25 / 16)"
  using toDouble_dyadic(1) [of 1 1] toDouble_dyadic(1) [of 1 2] toDouble_dyadic(1) [of 3 2]
    toDouble_dyadic(1) [of 5 2] toDouble_dyadic(1) [of 9 4] toDouble_dyadic(1) [of 25 4]
  by simp_all

section \<open>Facts about the numbers and the examples\<close>

lemma jsub_Fin [simp]: "jsub (Fin a) (Fin b) = Fin (a - b)"
  by (simp add: jsub_def)

lemma jmin_Fin [simp]: "jmin (Fin a) (Fin b) = Fin (min a b)"
  by (simp add: min_def)

lemma jmax_Fin [simp]: "jmax (Fin a) (Fin b) = Fin (max a b)"
  by (simp add: max_def)

lemmas doubleOps = dadd_def dsub_def dmul_def ddiv_def dsqrt_def

lemma isFin_obtain: "isFin a \<Longrightarrow> \<exists>x. a = Fin x"
  by (cases a) auto

lemma exampleLayer_fields:
  "windData (exampleLayer view) = exampleField"
  "viewer (exampleLayer view) = exampleHost view"
  "pixelSize (viewerParameters (exampleLayer view)) = Fin 1000"
  "mode (exampleHost view) = SCENE3D"
  by (simp_all add: exampleLayer_def exampleHost_def)

section \<open>Properties of the normalization\<close>

lemma speeds_step:
  "i < length ua \<Longrightarrow>
   speeds ua va i =
     fround (dsqrt (dadd (dmul (toNumber (readIdx ua i)) (toNumber (readIdx ua i)))
                         (dmul (toNumber (readIdx va i)) (toNumber (readIdx va i))))) #
     speeds ua va (i + 1)"
  by (simp add: speeds_def upt_conv_Cons magnitude_def)

lemma speeds_done: "\<not> i < length ua \<Longrightarrow> speeds ua va i = []"
  by (simp add: speeds_def)

lemma speedLoop_result:
  "length arr = length ua \<Longrightarrow>
   speedLoop ua va i (arr, mn, mx) =
     (take i arr @ speeds ua va i,
      fold (\<lambda>s m. jmin m s) (nonzero (speeds ua va i)) mn,
      fold (\<lambda>s m. jmax m s) (nonzero (speeds ua va i)) mx)"
proof (induction ua va i "(arr, mn, mx)" arbitrary: arr mn mx rule: speedLoop.induct)
  case (1 ua va i arr mn mx)
  let ?s = "fround (dsqrt (dadd (dmul (toNumber (readIdx ua i)) (toNumber (readIdx ua i)))
                 (dmul (toNumber (readIdx va i)) (toNumber (readIdx va i)))))"
  let ?arr = "arr[i := ?s]"
  show ?case
  proof (cases "i < length ua")
    case False
    then show ?thesis using "1.prems"
      by (subst speedLoop.simps) (simp add: speeds_done nonzero_def)
  next
    case True
    have len: "length ?arr = length ua" using "1.prems" by simp
    have rd: "toNumber (readIdx ?arr i) = ?s"
      using True "1.prems" by (simp add: readIdx_def)
    have tk: "take (Suc i) ?arr = take i arr @ [?s]"
      using True "1.prems" by (simp add: take_Suc_conv_app_nth)
    show ?thesis
    proof (cases "jne ?s (Fin 0)")
      case nz: True
      have nz': "jne (toNumber (readIdx ?arr i)) (Fin 0)" using nz rd by simp
      have "speedLoop ua va i (arr, mn, mx) = speedLoop ua va (i + 1) (?arr, jmin mn ?s, jmax mx ?s)"
        using True nz rd by (subst speedLoop.simps) (simp add: Let_def)
      also have "\<dots> = (take (i + 1) ?arr @ speeds ua va (i + 1),
          fold (\<lambda>s m. jmin m s) (nonzero (speeds ua va (i + 1))) (jmin mn ?s),
          fold (\<lambda>s m. jmax m s) (nonzero (speeds ua va (i + 1))) (jmax mx ?s))"
        using "1.hyps"(1) [OF True refl refl refl refl nz' len] rd by simp
      finally show ?thesis using nz by (simp add: tk speeds_step [OF True] nonzero_def)
    next
      case z: False
      have z': "\<not> jne (toNumber (readIdx ?arr i)) (Fin 0)" using z rd by simp
      have "speedLoop ua va i (arr, mn, mx) = speedLoop ua va (i + 1) (?arr, mn, mx)"
        using True z rd by (subst speedLoop.simps) (simp add: Let_def)
      also have "\<dots> = (take (i + 1) ?arr @ speeds ua va (i + 1),
          fold (\<lambda>s m. jmin m s) (nonzero (speeds ua va (i + 1))) mn,
          fold (\<lambda>s m. jmax m s) (nonzero (speeds ua va (i + 1))) mx)"
        using "1.hyps"(2) [OF True refl refl refl refl z' len] by simp
      finally show ?thesis using z by (simp add: tk speeds_step [OF True] nonzero_def)
    qed
  qed
qed

lemma MAX_VALUE_large:
  assumes "x < 2 ^ 1023"
  shows "jlt (Fin x) MAX_VALUE"
proof -
  have "(2::real) ^ 1023 \<le> (2 - 1 / 2 ^ 52) * 2 ^ 1023" by simp
  with assms show ?thesis by (simp add: MAX_VALUE_def)
qed

lemma MIN_VALUE_small:
  assumes "1 \<le> x"
  shows "jlt MIN_VALUE (Fin x)"
proof -
  have "(1::real) / 2 ^ 1074 < 1" by simp
  with assms show ?thesis by (simp add: MIN_VALUE_def)
qed

lemma MAX_gt_MIN: "jgt MAX_VALUE MIN_VALUE"
proof -
  have "(1::real) / 2 ^ 1074 < 1" by simp
  moreover have "(1::real) \<le> 2 ^ 1023" by simp
  moreover have "(2::real) ^ 1023 \<le> (2 - 1 / 2 ^ 52) * 2 ^ 1023" by simp
  ultimately have "(1::real) / 2 ^ 1074 < (2 - 1 / 2 ^ 52) * 2 ^ 1023" by linarith
  then show ?thesis by (simp add: jgt_def MAX_VALUE_def MIN_VALUE_def)
qed

lemma deriveSpeed_result:
  "deriveSpeed w =
     \<lparr>array = speeds (array (u w)) (array (v w)) 0,
      amin = Some (fold (\<lambda>s m. jmin m s) (nonzero (speeds (array (u w)) (array (v w)) 0)) MAX_VALUE),
      amax = Some (fold (\<lambda>s m. jmax m s) (nonzero (speeds (array (u w)) (array (v w)) 0)) MIN_VALUE)\<rparr>"
  by (simp add: deriveSpeed_def speedLoop_result)

lemma speeds_nth:
  "i < length ua \<Longrightarrow> speeds ua va 0 ! i = fround (magnitude (ua ! i) (toNumber (readIdx va i)))"
  by (simp add: speeds_def readIdx_def)

lemma length_speeds: "length (speeds ua va 0) = length ua"
  by (simp add: speeds_def)

text \<open>
  C5 (as amended). When the speed axis is derived, the speed array has the length of the
  \<open>u\<close> array and each entry is \<open>Math.sqrt(u[i] * u[i] + v[i] * v[i])\<close> rounded to single
  precision, and \<open>min\<close> and \<open>max\<close> are accumulated from \<open>Number.MAX_VALUE\<close> and
  \<open>Number.MIN_VALUE\<close> over the entries that differ from zero, in order. When the only
  nonzero entry is 5, \<open>min\<close> and \<open>max\<close> are both 5; when no entry is nonzero they stay at
  \<open>Number.MAX_VALUE\<close> and \<open>Number.MIN_VALUE\<close>, so that \<open>min > max\<close>. \<open>processWindData\<close>
  has no raising path.
\<close>

theorem derived_speed:
  "speed w = None \<or> (\<exists>s. speed w = Some s \<and> (amin s = None \<or> amax s = None)) \<Longrightarrow>
   (let sp = rspeed (processWindData w) in
      length (array sp) = length (array (u w)) \<and>
      (\<forall>i < length (array (u w)).
         array sp ! i = fround (magnitude (array (u w) ! i) (toNumber (readIdx (array (v w)) i)))) \<and>
      amin sp = Some (fold (\<lambda>s m. jmin m s) (nonzero (array sp)) MAX_VALUE) \<and>
      amax sp = Some (fold (\<lambda>s m. jmax m s) (nonzero (array sp)) MIN_VALUE) \<and>
      (nonzero (array sp) = [Fin 5] \<longrightarrow> amin sp = Some (Fin 5) \<and> amax sp = Some (Fin 5)) \<and>
      (nonzero (array sp) = [] \<longrightarrow>
         amin sp = Some MAX_VALUE \<and> amax sp = Some MIN_VALUE \<and>
         jgt (toNumber (amin sp)) (toNumber (amax sp))))"
proof -
  assume "speed w = None \<or> (\<exists>s. speed w = Some s \<and> (amin s = None \<or> amax s = None))"
  then have sp: "rspeed (processWindData w) = deriveSpeed w"
    by (auto simp: processWindData_def processSpeed_def)
  have five_min: "jmin MAX_VALUE (Fin 5) = Fin 5"
    using MAX_VALUE_large [of 5] by (simp add: MAX_VALUE_def)
  have five_max: "jmax MIN_VALUE (Fin 5) = Fin 5"
    using MIN_VALUE_small [of 5] by (simp add: MIN_VALUE_def)
  show ?thesis
    unfolding Let_def sp deriveSpeed_result
    by (simp add: length_speeds speeds_nth five_min five_max MAX_gt_MIN)
qed

lemma sqrt_25: "sqrt 25 = 5"
  by (rule real_sqrt_unique) simp_all

lemma nat4: "[0..<4] = [0, 1, 2, 3]"
  by (simp add: upt_rec)

lemma nat2: "[0..<2] = [0, 1]"
  by (simp add: upt_rec)

lemma speeds_example:
  "speeds [Fin 3, Fin 0, Fin 0, Fin 0] [Fin 4, Fin 0, Fin 0, Fin 0] 0 = [Fin 5, Fin 0, Fin 0, Fin 0]"
  by (simp add: speeds_def magnitude_def readIdx_def nat4 sqrt_25 doubleOps)

lemma speeds_calm:
  "speeds [Fin 0, Fin 0] [Fin 0, Fin 0] 0 = [Fin 0, Fin 0]"
  by (simp add: speeds_def magnitude_def readIdx_def nat2 doubleOps)

lemma process_example: "processWindData exampleData = exampleField"
proof -
  have five_min: "jmin MAX_VALUE (Fin 5) = Fin 5"
    using MAX_VALUE_large [of 5] by (simp add: MAX_VALUE_def)
  have five_max: "jmax MIN_VALUE (Fin 5) = Fin 5"
    using MIN_VALUE_small [of 5] by (simp add: MIN_VALUE_def)
  have "deriveSpeed exampleData =
          \<lparr>array = [Fin 5, Fin 0, Fin 0, Fin 0], amin = Some (Fin 5), amax = Some (Fin 5)\<rparr>"
    unfolding deriveSpeed_result
    by (simp add: exampleData_def speeds_example nonzero_def five_min five_max)
  then show ?thesis
    by (simp add: processWindData_def processSpeed_def processMask_def exampleField_def exampleData_def
        numeral_eq_Suc)
qed

lemma process_calm:
  "rspeed (processWindData calmData) =
     \<lparr>array = [Fin 0, Fin 0], amin = Some MAX_VALUE, amax = Some MIN_VALUE\<rparr>"
proof -
  have "deriveSpeed calmData =
          \<lparr>array = [Fin 0, Fin 0], amin = Some MAX_VALUE, amax = Some MIN_VALUE\<rparr>"
    unfolding deriveSpeed_result
    by (simp add: calmData_def speeds_calm nonzero_def)
  then show ?thesis
    by (simp add: processWindData_def processSpeed_def calmData_def)
qed

theorem derived_speed_witness:
  "speed exampleData = None \<and>
   rspeed (processWindData exampleData) =
     \<lparr>array = [Fin 5, Fin 0, Fin 0, Fin 0], amin = Some (Fin 5), amax = Some (Fin 5)\<rparr> \<and>
   magnitude (Fin 3) (Fin 4) = Fin 5 \<and>
   nonzero [Fin 5, Fin 0, Fin 0, Fin 0] = [Fin 5] \<and>
   speed calmData = None \<and>
   rspeed (processWindData calmData) =
     \<lparr>array = [Fin 0, Fin 0], amin = Some MAX_VALUE, amax = Some MIN_VALUE\<rparr> \<and>
   nonzero [Fin 0, Fin 0] = [] \<and>
   jgt MAX_VALUE MIN_VALUE"
proof -
  have h1: "speed exampleData = None" by (simp add: exampleData_def)
  have h2: "speed calmData = None" by (simp add: calmData_def)
  have m: "magnitude (Fin 3) (Fin 4) = Fin 5" by (simp add: magnitude_def sqrt_25 doubleOps)
  have nz1: "nonzero [Fin 5, Fin 0, Fin 0, Fin 0] = [Fin 5]" by (simp add: nonzero_def)
  have nz2: "nonzero [Fin 0, Fin 0] = []" by (simp add: nonzero_def)
  from derived_speed [of exampleData] derived_speed [of calmData] h1 h2 m nz1 nz2
  show ?thesis
    by (simp add: process_example process_calm exampleField_def)
qed

lemma fround_tie: "fround (Fin 16777217) = Fin 16777216"
proof -
  have two: "singleQuantum * 2 ^ 150 = 2"
    unfolding singleQuantum_def using power_unscale [of 149 1] by simp
  have top: "singleQuantum * 2 ^ 253 = 2 ^ 104"
    unfolding singleQuantum_def using power_unscale [of 149 104] by simp
  have q: "quantum 24 253 singleQuantum 16777217 = singleQuantum * 2 ^ 150"
  proof (rule quantum_unique)
    show "0 < singleQuantum" by (rule singleQuantum_pos)
    show "150 \<le> (253::nat)" by simp
    show "16777217 < 2 ^ 24 * (singleQuantum * 2 ^ 150)" unfolding two by simp
    show "2 ^ 24 * (singleQuantum * 2 ^ 150) \<le> 2 * 16777217" unfolding two by simp
  qed
  have r: "roundEven (16777217 / 2) = 8388608"
    by (simp add: roundEven_def)
  have "roundBinary 24 singleQuantum 253 16777217 = Fin 16777216"
    unfolding roundBinary_def Let_def abs_numeral q two top r by simp
  then show ?thesis by (simp only: fround.simps(1))
qed

lemma sqrt_triple: "sqrt 281475010265089 = 16777217"
  by (rule real_sqrt_unique) simp_all

lemma process_triple:
  "rspeed (processWindData tripleData) =
     \<lparr>array = [Fin 16777216], amin = Some (Fin 16777216), amax = Some (Fin 16777216)\<rparr>"
proof -
  have mn: "jmin MAX_VALUE (Fin 16777216) = Fin 16777216"
    using MAX_VALUE_large [of 16777216] by (simp add: MAX_VALUE_def)
  have mx: "jmax MIN_VALUE (Fin 16777216) = Fin 16777216"
    using MIN_VALUE_small [of 16777216] by (simp add: MIN_VALUE_def)
  have sp: "speeds [Fin 16777215] [Fin 8192] 0 = [Fin 16777216]"
    by (simp add: speeds_def magnitude_def readIdx_def doubleOps sqrt_triple fround_tie)
  have "deriveSpeed tripleData =
          \<lparr>array = [Fin 16777216], amin = Some (Fin 16777216), amax = Some (Fin 16777216)\<rparr>"
    unfolding deriveSpeed_result
    by (simp add: tripleData_def sp nonzero_def mn mx)
  then show ?thesis
    by (simp add: processWindData_def processSpeed_def tripleData_def)
qed

text \<open>
  C5 as stated fails: for the wind (16777215, 8192) the square root of the sum of the
  squares is 16777217, in exact arithmetic and in doubles, and the stored speed is
  16777216, the nearest single-precision value.
\<close>

theorem stored_speed_is_rounded:
  "speed tripleData = None \<and>
   array (u tripleData) = [Fin 16777215] \<and> array (v tripleData) = [Fin 8192] \<and>
   jsqrt (jadd (jmul (Fin 16777215) (Fin 16777215)) (jmul (Fin 8192) (Fin 8192))) = Fin 16777217 \<and>
   dsqrt (dadd (dmul (Fin 16777215) (Fin 16777215)) (dmul (Fin 8192) (Fin 8192))) = Fin 16777217 \<and>
   array (rspeed (processWindData tripleData)) = [Fin 16777216]"
proof -
  have "array (rspeed (processWindData tripleData)) = [Fin 16777216]"
    by (simp add: process_triple)
  moreover have "speed tripleData = None \<and>
     array (u tripleData) = [Fin 16777215] \<and> array (v tripleData) = [Fin 8192]"
    by (simp add: tripleData_def)
  moreover have "jsqrt (jadd (jmul (Fin 16777215) (Fin 16777215)) (jmul (Fin 8192) (Fin 8192)))
      = Fin 16777217"
    by (simp add: sqrt_triple)
  moreover have "dsqrt (dadd (dmul (Fin 16777215) (Fin 16777215)) (dmul (Fin 8192) (Fin 8192)))
      = Fin 16777217"
    by (simp add: sqrt_triple doubleOps)
  ultimately show ?thesis by blast
qed

lemma processSpeed_complete:
  "amin (processSpeed w) \<noteq> None \<and> amax (processSpeed w) \<noteq> None"
  by (simp add: processSpeed_def deriveSpeed_def Let_def split: option.splits prod.splits)

lemma processMask_complete:
  "amin (processMask w) \<noteq> None \<and> amax (processMask w) \<noteq> None"
  by (simp add: processMask_def Let_def split: option.splits prod.splits)

text \<open>
  C6. \<open>processWindData\<close> returns a field whose speed and mask axes have \<open>min\<close> and \<open>max\<close>;
  it returns its argument when the argument already has them, and running it on its own
  result changes nothing.
\<close>

theorem normalize_idempotent:
  "((\<exists>s m. speed w = Some s \<and> amin s \<noteq> None \<and> amax s \<noteq> None \<and>
           mask w = Some m \<and> amin m \<noteq> None \<and> amax m \<noteq> None)
      \<longrightarrow> asWindData (processWindData w) = w) \<and>
   processWindData (asWindData (processWindData w)) = processWindData w"
proof (intro conjI impI)
  assume "\<exists>s m. speed w = Some s \<and> amin s \<noteq> None \<and> amax s \<noteq> None \<and>
           mask w = Some m \<and> amin m \<noteq> None \<and> amax m \<noteq> None"
  then show "asWindData (processWindData w) = w"
    by (auto simp: asWindData_def processWindData_def processSpeed_def processMask_def)
next
  show "processWindData (asWindData (processWindData w)) = processWindData w"
    using processSpeed_complete [of w] processMask_complete [of w]
    by (auto simp: asWindData_def processWindData_def processSpeed_def [of "\<lparr>u = _, v = _, speed = _, mask = _, width = _, height = _, bounds = _\<rparr>"]
          processMask_def [of "\<lparr>u = _, v = _, speed = _, mask = _, width = _, height = _, bounds = _\<rparr>"])
qed

theorem normalize_idempotent_witness:
  "speed (asWindData exampleField) = Some (rspeed exampleField) \<and>
   amin (rspeed exampleField) = Some (Fin 5) \<and>
   asWindData (processWindData (asWindData exampleField)) = asWindData exampleField \<and>
   processWindData (asWindData (processWindData exampleData)) = processWindData exampleData"
  using normalize_idempotent [of "asWindData exampleField"] normalize_idempotent [of exampleData]
  by (simp add: asWindData_def exampleField_def)

section \<open>Properties of the point query\<close>

lemma jlt_asym: "jlt a b \<Longrightarrow> \<not> jlt b a"
  by (cases a; cases b) auto

lemma sqrt_25_16: "sqrt (25 / 16) = 5 / 4"
  by (rule real_sqrt_unique) (simp_all add: power2_eq_square)

lemma query_example:
  "getDataAtLonLat (exampleLayer view) (Fin 5) (Fin 5) =
     Some \<lparr>original = \<lparr>ou = Some (Fin 3), ov = Some (Fin 4), ospeed = Some (Fin 5)\<rparr>,
           interpolated = \<lparr>iu = Fin (3 / 4), iv = Fin 1, ispeed = Fin (5 / 4)\<rparr>\<rparr>"
  by (simp add: getDataAtLonLat_def xNormOf_def yNormOf_def exampleLayer_def exampleField_def
      DefaultOptions_def jsub_def jgt_def Let_def sqrt_25_16 doubleOps toDouble_fractions)

text \<open>
  C1. A query strictly inside the bounds of the field returns a result, and a query
  strictly outside the bounds on any side returns \<open>null\<close>. The function has no other
  outcome: it raises no error.
\<close>

theorem getDataAtLonLat_inside_outside:
  "(jlt (west (rbounds (windData this))) lon \<and> jlt lon (east (rbounds (windData this))) \<and>
    jlt (south (rbounds (windData this))) lat \<and> jlt lat (north (rbounds (windData this)))
      \<longrightarrow> getDataAtLonLat this lon lat \<noteq> None) \<and>
   (jlt lon (west (rbounds (windData this))) \<or> jgt lon (east (rbounds (windData this))) \<or>
    jlt lat (south (rbounds (windData this))) \<or> jgt lat (north (rbounds (windData this)))
      \<longrightarrow> getDataAtLonLat this lon lat = None)"
  by (auto simp: getDataAtLonLat_def Let_def jgt_def dest: jlt_asym)

theorem getDataAtLonLat_inside_outside_witness:
  "getDataAtLonLat (exampleLayer horizonView) (Fin 5) (Fin 5) \<noteq> None \<and>
   getDataAtLonLat (exampleLayer horizonView) (Fin 11) (Fin 5) = None \<and>
   getDataAtLonLat (exampleLayer horizonView) (Fin 5) (Fin (- 1)) = None"
  using getDataAtLonLat_inside_outside [of "exampleLayer horizonView" "Fin 5" "Fin 5"]
    getDataAtLonLat_inside_outside [of "exampleLayer horizonView" "Fin 11" "Fin 5"]
    getDataAtLonLat_inside_outside [of "exampleLayer horizonView" "Fin 5" "Fin (- 1)"]
  by (simp add: exampleLayer_def exampleField_def jgt_def)

lemma getDataAtLonLat_cells:
  assumes "getDataAtLonLat this lon lat = Some r"
  shows "ou (original r) = readAt (array (ru (windData this))) (floorCell this lon lat)"
    and "ov (original r) = readAt (array (rv (windData this))) (floorCell this lon lat)"
    and "iu (interpolated r) =
           bilinear (weightX this lon) (weightY this lat)
             (toNumber (readAt (array (ru (windData this)))
                (cell (jfloor (yNormOf this lat)) (rwidth (windData this)) (jfloor (xNormOf this lon)))))
             (toNumber (readAt (array (ru (windData this)))
                (cell (jfloor (yNormOf this lat)) (rwidth (windData this))
                   (nextCell (jfloor (xNormOf this lon)) (rwidth (windData this))))))
             (toNumber (readAt (array (ru (windData this)))
                (cell (nextCell (jfloor (yNormOf this lat)) (rheight (windData this)))
                   (rwidth (windData this)) (jfloor (xNormOf this lon)))))
             (toNumber (readAt (array (ru (windData this)))
                (cell (nextCell (jfloor (yNormOf this lat)) (rheight (windData this)))
                   (rwidth (windData this))
                   (nextCell (jfloor (xNormOf this lon)) (rwidth (windData this))))))"
    and "iv (interpolated r) =
           bilinear (weightX this lon) (weightY this lat)
             (toNumber (readAt (array (rv (windData this)))
                (cell (jfloor (yNormOf this lat)) (rwidth (windData this)) (jfloor (xNormOf this lon)))))
             (toNumber (readAt (array (rv (windData this)))
                (cell (jfloor (yNormOf this lat)) (rwidth (windData this))
                   (nextCell (jfloor (xNormOf this lon)) (rwidth (windData this))))))
             (toNumber (readAt (array (rv (windData this)))
                (cell (nextCell (jfloor (yNormOf this lat)) (rheight (windData this)))
                   (rwidth (windData this)) (jfloor (xNormOf this lon)))))
             (toNumber (readAt (array (rv (windData this)))
                (cell (nextCell (jfloor (yNormOf this lat)) (rheight (windData this)))
                   (rwidth (windData this))
                   (nextCell (jfloor (xNormOf this lon)) (rwidth (windData this))))))"
    and "\<not> jlt lon (west (rbounds (windData this)))" and "\<not> jlt (east (rbounds (windData this))) lon"
    and "\<not> jlt lat (south (rbounds (windData this)))" and "\<not> jlt (north (rbounds (windData this))) lat"
  using assms
  by (auto simp: getDataAtLonLat_def Let_def floorCell_def cell_def nextCell_def bilinear_def
      weightX_def weightY_def jgt_def split: if_splits)


lemma example_weights:
  "weightX (exampleLayer view) (Fin 5) = Fin (1 / 2)"
  "weightY (exampleLayer view) (Fin 5) = Fin (1 / 2)"
  "jfloor (xNormOf (exampleLayer view) (Fin 5)) = Fin 0"
  "jfloor (yNormOf (exampleLayer view) (Fin 5)) = Fin 0"
  by (simp_all add: weightX_def weightY_def xNormOf_def yNormOf_def exampleLayer_def exampleField_def
      DefaultOptions_def Let_def doubleOps toDouble_fractions)

lemma example_bilinear:
  "bilinear (Fin (1 / 2)) (Fin (1 / 2)) (Fin 3) (Fin 0) (Fin 0) (Fin 0) = Fin (3 / 4)"
  "bilinear (Fin (1 / 2)) (Fin (1 / 2)) (Fin 4) (Fin 0) (Fin 0) (Fin 0) = Fin 1"
  by (simp_all add: bilinear_def doubleOps toDouble_fractions)


lemma dsub_Fin: "dsub (Fin a) (Fin b) = toDouble (Fin (a - b))"
  by (simp add: dsub_def jsub_def)

lemma dadd_Fin: "dadd (Fin a) (Fin b) = toDouble (Fin (a + b))"
  by (simp add: dadd_def)

lemma dmul_Fin: "dmul (Fin a) (Fin b) = toDouble (Fin (a * b))"
  by (simp add: dmul_def)

lemma ddiv_Fin: "b \<noteq> 0 \<Longrightarrow> ddiv (Fin a) (Fin b) = toDouble (Fin (a / b))"
  by (simp add: ddiv_def)

lemma extent_positive:
  assumes "toDouble (Fin lo) = Fin lo" "toDouble (Fin hi) = Fin hi" "lo < hi"
    and "dsub (Fin hi) (Fin lo) = Fin dx"
  shows "0 < dx"
proof -
  from toDouble_multiple [OF assms(1)] obtain i :: int where i: "lo = of_int i * doubleQuantum" by blast
  from toDouble_multiple [OF assms(2)] obtain j :: int where j: "hi = of_int j * doubleQuantum" by blast
  have m: "hi - lo = of_int (j - i) * doubleQuantum" by (simp add: i j algebra_simps)
  have p: "0 < hi - lo" using assms(3) by simp
  from assms(4) have "toDouble (Fin (hi - lo)) = Fin dx" by (simp only: dsub_Fin)
  from toDouble_positive [OF m p this] show ?thesis .
qed

lemma index_bound:
  fixes X Y W H :: int
  assumes "0 \<le> X" "X < W" "0 \<le> Y" "Y < H"
  shows "0 \<le> Y * W + X" and "Y * W + X < W * H"
proof -
  have "0 \<le> Y * W" using assms by simp
  then show "0 \<le> Y * W + X" using assms by simp
  have "Y * W + X < Y * W + W" using assms by simp
  also have "\<dots> = (Y + 1) * W" by (simp add: algebra_simps)
  also have "\<dots> \<le> H * W" using assms by (intro mult_right_mono) auto
  finally show "Y * W + X < W * H" by (simp add: mult.commute)
qed

lemma readAt_int:
  assumes "0 \<le> k" "nat k < length xs"
  shows "readAt xs (Fin (of_int k)) = Some (xs ! nat k)"
  using assms by simp

lemma grid_size:
  fixes W H :: nat
  assumes "W * H < 2 ^ 53" "0 < W" "0 < H"
  shows "W < 2 ^ 53" "H < 2 ^ 53" "int W * int H < 2 ^ 53"
proof -
  have "W \<le> W * H" using assms(3) by simp
  from this assms(1) show "W < 2 ^ 53" by (rule le_less_trans)
  have "H \<le> W * H" using assms(2) by simp
  from this assms(1) show "H < 2 ^ 53" by (rule le_less_trans)
  have "int (W * H) < int (2 ^ 53)" using assms(1) by (simp only: of_nat_less_iff)
  then show "int W * int H < 2 ^ 53" by simp
qed

lemma cell_int:
  assumes "0 \<le> X" "X < int W" "0 \<le> Y" "Y < int H" "W * H < 2 ^ 53"
  shows "cell (Fin (of_int Y)) (Fin (real W)) (Fin (of_int X)) = Fin (of_int (Y * int W + X))"
proof -
  have WH: "0 < W" "0 < H" using assms(1-4) by auto
  note sz = grid_size [OF assms(5) WH]
  note k = index_bound [OF assms(1-4)]
  have yw: "0 \<le> Y * int W" using assms(3) by simp
  have "Y * int W \<le> Y * int W + X" using assms(1) by simp
  also have "\<dots> < 2 ^ 53" using k(2) sz(3) by simp
  finally have a1: "\<bar>Y * int W\<bar> < 2 ^ 53" using yw by simp
  have a2: "\<bar>Y * int W + X\<bar> < 2 ^ 53" using k sz(3) by simp
  have e1: "real_of_int Y * real W = real_of_int (Y * int W)" by simp
  have e2: "real_of_int (Y * int W) + real_of_int X = real_of_int (Y * int W + X)" by simp
  show ?thesis
    unfolding cell_def dmul_Fin e1 toDouble_int [OF a1] dadd_Fin e2 toDouble_int [OF a2] ..
qed

lemma nextCell_int:
  assumes "0 \<le> X" "X < int W" "W < 2 ^ 53"
  shows "nextCell (Fin (of_int X)) (Fin (real W)) = Fin (of_int (min (X + 1) (int W - 1)))"
proof -
  have w: "int W < 2 ^ 53" using assms(3) of_nat_less_iff [of W "2 ^ 53", where ?'a = int] by simp
  have a1: "\<bar>X + 1\<bar> < 2 ^ 53" using assms(1,2) w by simp
  have a2: "\<bar>int W - 1\<bar> < 2 ^ 53" using assms(1,2) w by simp
  have e1: "real_of_int X + 1 = real_of_int (X + 1)" by simp
  have e2: "real W - 1 = real_of_int (int W - 1)" by simp
  have "min (real_of_int (X + 1)) (real_of_int (int W - 1)) = of_int (min (X + 1) (int W - 1))"
    by (simp add: min_def)
  then show ?thesis
    unfolding nextCell_def dadd_Fin dsub_Fin e1 e2 toDouble_int [OF a1] toDouble_int [OF a2]
    by (simp only: jmin_Fin)
qed

lemma jfloor_int: "jfloor (Fin (of_int X)) = Fin (of_int X)"
  by simp

lemma bilinear_zero:
  "toDouble (Fin a) = Fin a \<Longrightarrow> bilinear (Fin 0) (Fin 0) (Fin a) (Fin b) (Fin c) (Fin d) = Fin a"
  by (simp add: bilinear_def doubleOps jsub_def)

lemma read_cell:
  assumes "list_all isDouble xs" "length xs = W * H"
    and "0 \<le> X" "X < int W" "0 \<le> Y" "Y < int H" "W * H < 2 ^ 53"
  shows "\<exists>a. readAt xs (cell (Fin (of_int Y)) (Fin (real W)) (Fin (of_int X))) = Some (Fin a) \<and>
             toDouble (Fin a) = Fin a"
proof -
  from index_bound [OF assms(3-6)] have k: "0 \<le> Y * int W + X" "Y * int W + X < int W * int H" .
  then have lt: "nat (Y * int W + X) < length xs"
    using assms(2) by (simp add: nat_less_iff)
  then have d: "isDouble (xs ! nat (Y * int W + X))"
    using assms(1) by (simp add: list_all_length)
  then obtain a where a: "xs ! nat (Y * int W + X) = Fin a"
    by (cases "xs ! nat (Y * int W + X)") (auto simp: isDouble_def)
  with d have "toDouble (Fin a) = Fin a" by (simp add: isDouble_def)
  with readAt_int [OF k(1) lt] a show ?thesis by (simp add: cell_int [OF assms(3-7)])
qed

lemma bilinear_at_cell:
  assumes "list_all isDouble xs" "length xs = W * H"
    and "0 \<le> X" "X < int W" "0 \<le> Y" "Y < int H" "W * H < 2 ^ 53"
  shows "Some (bilinear (Fin 0) (Fin 0)
           (toNumber (readAt xs (cell (Fin (of_int Y)) (Fin (real W)) (Fin (of_int X)))))
           (toNumber (readAt xs (cell (Fin (of_int Y)) (Fin (real W))
              (nextCell (Fin (of_int X)) (Fin (real W))))))
           (toNumber (readAt xs (cell (nextCell (Fin (of_int Y)) (Fin (real H))) (Fin (real W))
              (Fin (of_int X)))))
           (toNumber (readAt xs (cell (nextCell (Fin (of_int Y)) (Fin (real H))) (Fin (real W))
              (nextCell (Fin (of_int X)) (Fin (real W))))))) =
         readAt xs (cell (Fin (of_int Y)) (Fin (real W)) (Fin (of_int X)))"
    and "\<exists>a. readAt xs (cell (Fin (of_int Y)) (Fin (real W)) (Fin (of_int X))) = Some (Fin a)"
proof -
  have WH: "0 < W" "0 < H" using assms(3-6) by auto
  note sz = grid_size [OF assms(7) WH]
  define X1 where "X1 = min (X + 1) (int W - 1)"
  define Y1 where "Y1 = min (Y + 1) (int H - 1)"
  have x1: "0 \<le> X1" "X1 < int W" using assms(3,4) by (auto simp: X1_def)
  have y1: "0 \<le> Y1" "Y1 < int H" using assms(5,6) by (auto simp: Y1_def)
  from read_cell [OF assms(1,2) assms(3,4) assms(5,6) assms(7)] obtain a00
    where r00: "readAt xs (cell (Fin (of_int Y)) (Fin (real W)) (Fin (of_int X))) = Some (Fin a00)"
      and d00: "toDouble (Fin a00) = Fin a00" by blast
  from read_cell [OF assms(1,2) x1 assms(5,6) assms(7)] obtain a10
    where r10: "readAt xs (cell (Fin (of_int Y)) (Fin (real W)) (Fin (of_int X1))) = Some (Fin a10)" by blast
  from read_cell [OF assms(1,2) assms(3,4) y1 assms(7)] obtain a01
    where r01: "readAt xs (cell (Fin (of_int Y1)) (Fin (real W)) (Fin (of_int X))) = Some (Fin a01)" by blast
  from read_cell [OF assms(1,2) x1 y1 assms(7)] obtain a11
    where r11: "readAt xs (cell (Fin (of_int Y1)) (Fin (real W)) (Fin (of_int X1))) = Some (Fin a11)" by blast
  show "Some (bilinear (Fin 0) (Fin 0)
           (toNumber (readAt xs (cell (Fin (of_int Y)) (Fin (real W)) (Fin (of_int X)))))
           (toNumber (readAt xs (cell (Fin (of_int Y)) (Fin (real W))
              (nextCell (Fin (of_int X)) (Fin (real W))))))
           (toNumber (readAt xs (cell (nextCell (Fin (of_int Y)) (Fin (real H))) (Fin (real W))
              (Fin (of_int X)))))
           (toNumber (readAt xs (cell (nextCell (Fin (of_int Y)) (Fin (real H))) (Fin (real W))
              (nextCell (Fin (of_int X)) (Fin (real W))))))) =
         readAt xs (cell (Fin (of_int Y)) (Fin (real W)) (Fin (of_int X)))"
    unfolding nextCell_int [OF assms(3,4) sz(1)] nextCell_int [OF assms(5,6) sz(2)]
      X1_def [symmetric] Y1_def [symmetric] r00 r10 r01 r11
    by (simp add: bilinear_zero [OF d00])
  show "\<exists>a. readAt xs (cell (Fin (of_int Y)) (Fin (real W)) (Fin (of_int X))) = Some (Fin a)"
    using r00 by blast
qed

lemma grid_coordinate:
  fixes N :: nat
  assumes dx: "dsub (Fin hi) (Fin lo) = Fin dx" and pos: "0 < dx"
    and q: "lo \<le> q" "q \<le> hi" and N: "0 < N" "N < 2 ^ 53"
  shows "\<exists>c r i. ddiv (dsub (Fin q) (Fin lo)) (dsub (Fin hi) (Fin lo)) = Fin c \<and>
           dmul (Fin c) (dsub (Fin (real N)) (Fin 1)) = Fin r \<and>
           0 \<le> r \<and> r \<le> real N - 1 \<and> r = of_int i * doubleQuantum \<and> (N = 1 \<longrightarrow> r = 0)"
proof -
  from dx have dx': "toDouble (Fin (hi - lo)) = Fin dx" by (simp only: dsub_Fin)
  have "0 \<le> q - lo" "q - lo \<le> hi - lo" using q by simp_all
  from toDouble_between [OF this toDouble_zero dx'] obtain a
    where a: "toDouble (Fin (q - lo)) = Fin a" "0 \<le> a" "a \<le> dx" by blast
  have "0 \<le> a / dx" "a / dx \<le> 1" using a(2,3) pos by simp_all
  from toDouble_between [OF this toDouble_zero toDouble_one] obtain c
    where c: "toDouble (Fin (a / dx)) = Fin c" "0 \<le> c" "c \<le> 1" by blast
  have nz: "dx \<noteq> 0" using pos by simp
  have quot: "ddiv (dsub (Fin q) (Fin lo)) (dsub (Fin hi) (Fin lo)) = Fin c"
    unfolding dx unfolding dsub_Fin a(1) ddiv_Fin [OF nz] by (rule c(1))
  have "N - 1 < 2 ^ 53" using N(2) by simp
  from toDouble_nat [OF this] have n1: "toDouble (Fin (real N - 1)) = Fin (real N - 1)"
    using N(1) by (simp add: of_nat_diff)
  have last: "dsub (Fin (real N)) (Fin 1) = Fin (real N - 1)"
    unfolding dsub_Fin by (rule n1)
  have n0: "0 \<le> real N - 1" using N(1) by simp
  have "0 \<le> c * (real N - 1)" using c(2) n0 by (rule mult_nonneg_nonneg)
  moreover have "c * (real N - 1) \<le> real N - 1" using mult_right_mono [OF c(3) n0] by simp
  ultimately obtain r
    where r: "toDouble (Fin (c * (real N - 1))) = Fin r" "0 \<le> r" "r \<le> real N - 1"
    using toDouble_between [OF _ _ toDouble_zero n1] by blast
  from toDouble_result_multiple [OF r(1)] obtain i :: int where i: "r = of_int i * doubleQuantum" by blast
  have prod: "dmul (Fin c) (dsub (Fin (real N)) (Fin 1)) = Fin r"
    unfolding last dmul_Fin by (rule r(1))
  have one: "r = 0" if "N = 1"
    using r(1) that by simp
  from quot prod r(2,3) i one show ?thesis by blast
qed

lemma flipped_coordinate:
  fixes N :: nat
  assumes r: "0 \<le> r" "r \<le> real N - 1" and N: "0 < N" "N < 2 ^ 53"
  shows "\<exists>t i. dsub (dsub (Fin (real N)) (Fin 1)) (Fin r) = Fin t \<and>
           0 \<le> t \<and> t \<le> real N - 1 \<and> t = of_int i * doubleQuantum \<and> (N = 1 \<longrightarrow> t = 0)"
proof -
  have "N - 1 < 2 ^ 53" using N(2) by simp
  from toDouble_nat [OF this] have n1: "toDouble (Fin (real N - 1)) = Fin (real N - 1)"
    using N(1) by (simp add: of_nat_diff)
  have "0 \<le> real N - 1 - r" "real N - 1 - r \<le> real N - 1" using r by simp_all
  from toDouble_between [OF this toDouble_zero n1] obtain t
    where t: "toDouble (Fin (real N - 1 - r)) = Fin t" "0 \<le> t" "t \<le> real N - 1" by blast
  from toDouble_result_multiple [OF t(1)] obtain i :: int where i: "t = of_int i * doubleQuantum" by blast
  have d: "dsub (dsub (Fin (real N)) (Fin 1)) (Fin r) = Fin t"
    unfolding dsub_Fin n1 by (rule t(1))
  have one: "t = 0" if "N = 1"
    using t(2,3) that by simp
  from d t(2,3) i one show ?thesis by blast
qed

lemma integer_coordinate:
  fixes r :: real and N :: nat
  assumes "0 \<le> r" "r \<le> real N - 1" "r = of_int i * doubleQuantum"
    and "dsub (Fin r) (jfloor (Fin r)) = Fin 0"
  shows "\<exists>X. r = of_int X \<and> 0 \<le> X \<and> X < int N"
proof -
  from int_multiple [of "\<lfloor>r\<rfloor>"] obtain k :: int
    where k: "real_of_int \<lfloor>r\<rfloor> = of_int k * doubleQuantum" by blast
  have m: "r - of_int \<lfloor>r\<rfloor> = of_int (i - k) * doubleQuantum"
    by (simp only: k) (simp add: assms(3) algebra_simps)
  have nn: "0 \<le> r - of_int \<lfloor>r\<rfloor>" by simp
  from assms(4) have "toDouble (Fin (r - of_int \<lfloor>r\<rfloor>)) = Fin 0"
    by (simp only: jfloor.simps dsub_Fin)
  from toDouble_zero_only [OF m nn this] have "r = of_int \<lfloor>r\<rfloor>" by simp
  moreover have "0 \<le> \<lfloor>r\<rfloor>" using assms(1) by simp
  moreover have "\<lfloor>r\<rfloor> < int N"
  proof -
    have "of_int \<lfloor>r\<rfloor> \<le> r" by simp
    also have "r < real N" using assms(2) by simp
    finally have "(of_int \<lfloor>r\<rfloor> :: real) < of_int (int N)" by simp
    then show ?thesis by (simp only: of_int_less_iff)
  qed
  ultimately show ?thesis by blast
qed


lemma query_point:
  "getDataAtLonLat ((exampleLayer horizonView)\<lparr>windData := pointField\<rparr>) (Fin 5) (Fin 5) =
     Some \<lparr>original = \<lparr>ou = Some (Fin 3), ov = Some (Fin 4), ospeed = Some (Fin 5)\<rparr>,
           interpolated = \<lparr>iu = Fin 3, iv = Fin 4, ispeed = Fin 5\<rparr>\<rparr>"
  by (simp add: getDataAtLonLat_def xNormOf_def yNormOf_def exampleLayer_def pointField_def
      DefaultOptions_def jgt_def Let_def sqrt_25 doubleOps jsub_def toDouble_fractions)

lemma query_corner:
  "getDataAtLonLat (exampleLayer horizonView) (Fin 0) (Fin 0) =
     Some \<lparr>original = \<lparr>ou = Some (Fin 3), ov = Some (Fin 4), ospeed = Some (Fin 5)\<rparr>,
           interpolated = \<lparr>iu = Fin 3, iv = Fin 4, ispeed = Fin 5\<rparr>\<rparr>"
  by (simp add: getDataAtLonLat_def xNormOf_def yNormOf_def exampleLayer_def exampleField_def
      DefaultOptions_def jgt_def Let_def sqrt_25 doubleOps jsub_def)


lemma row_fields:
  "west (rbounds (windData ((exampleLayer view)\<lparr>windData := rowField\<rparr>))) = Fin 0"
  "east (rbounds (windData ((exampleLayer view)\<lparr>windData := rowField\<rparr>))) = Fin 22"
  "south (rbounds (windData ((exampleLayer view)\<lparr>windData := rowField\<rparr>))) = Fin 0"
  "north (rbounds (windData ((exampleLayer view)\<lparr>windData := rowField\<rparr>))) = Fin 1"
  "rwidth (windData ((exampleLayer view)\<lparr>windData := rowField\<rparr>)) = Fin 23"
  "rheight (windData ((exampleLayer view)\<lparr>windData := rowField\<rparr>)) = Fin 1"
  "flipY (options ((exampleLayer view)\<lparr>windData := rowField\<rparr>)) = False"
  by (simp_all add: rowField_def exampleLayer_def DefaultOptions_def)

lemma quotient_15_22: "ddiv (Fin 15) (Fin 22) = Fin (6141272219141585 / 2 ^ 53)"
proof -
  have r: "roundEven (15 / 22 * 2 ^ 53) = 6141272219141585"
    by (rule roundEven_near) simp_all
  have t: "toDouble (Fin (15 / 22)) = Fin (of_int (roundEven (15 / 22 * 2 ^ 53)) / 2 ^ 53)"
    by (rule toDouble_at) simp_all
  have nz: "(22::real) \<noteq> 0" by simp
  show ?thesis unfolding ddiv_Fin [OF nz] t r of_int_numeral ..
qed

lemma product_22: "dmul (Fin (6141272219141585 / 2 ^ 53)) (Fin 22) = Fin (8444249301319679 / 2 ^ 49)"
proof -
  have r: "roundEven (6141272219141585 / 2 ^ 53 * 22 * 2 ^ 49) = 8444249301319679"
    by (rule roundEven_near) simp_all
  have "toDouble (Fin (6141272219141585 / 2 ^ 53 * 22)) =
          Fin (of_int (roundEven (6141272219141585 / 2 ^ 53 * 22 * 2 ^ 49)) / 2 ^ 49)"
    by (rule toDouble_at) simp_all
  then show ?thesis unfolding r by (simp only: dmul_Fin of_int_numeral)
qed

lemma row_xNorm:
  "xNormOf ((exampleLayer view)\<lparr>windData := rowField\<rparr>) (Fin 15) = Fin (8444249301319679 / 2 ^ 49)"
proof -
  have s: "dsub (Fin 15) (Fin 0) = Fin 15" "dsub (Fin 22) (Fin 0) = Fin 22"
    "dsub (Fin 23) (Fin 1) = Fin 22"
    by (simp_all add: dsub_Fin)
  show ?thesis
    unfolding xNormOf_def Let_def row_fields s quotient_15_22 product_22 ..
qed

lemma row_yNorm:
  "yNormOf ((exampleLayer view)\<lparr>windData := rowField\<rparr>) (Fin 0) = Fin 0"
  unfolding yNormOf_def Let_def row_fields by (simp add: doubleOps jsub_def)

lemma row_weightX:
  "weightX ((exampleLayer view)\<lparr>windData := rowField\<rparr>) (Fin 15) = Fin (1 - 1 / 2 ^ 49)"
  "jfloor (xNormOf ((exampleLayer view)\<lparr>windData := rowField\<rparr>) (Fin 15)) = Fin 14"
proof -
  have f: "\<lfloor>8444249301319679 / (2::real) ^ 49\<rfloor> = 14"
    by (rule floor_unique) simp_all
  show fl: "jfloor (xNormOf ((exampleLayer view)\<lparr>windData := rowField\<rparr>) (Fin 15)) = Fin 14"
    unfolding row_xNorm jfloor.simps f by simp
  have e: "8444249301319679 / (2::real) ^ 49 - 14 = real 562949953421311 / 2 ^ 49"
    "1 - 1 / (2::real) ^ 49 = real 562949953421311 / 2 ^ 49"
    by simp_all
  have "toDouble (Fin (real 562949953421311 / 2 ^ 49)) = Fin (real 562949953421311 / 2 ^ 49)"
    by (rule toDouble_dyadic(1)) simp_all
  then show "weightX ((exampleLayer view)\<lparr>windData := rowField\<rparr>) (Fin 15) = Fin (1 - 1 / 2 ^ 49)"
    unfolding weightX_def fl unfolding row_xNorm dsub_Fin e .
qed

lemma dsub_exact:
  "a - b = real m / 2 ^ k \<Longrightarrow> m < 2 ^ 53 \<Longrightarrow> k \<le> 1074 \<Longrightarrow> dsub (Fin a) (Fin b) = Fin (a - b)"
  using toDouble_dyadic(1) [of m k] by (simp add: dsub_Fin)

lemma dadd_exact:
  "a + b = real m / 2 ^ k \<Longrightarrow> m < 2 ^ 53 \<Longrightarrow> k \<le> 1074 \<Longrightarrow> dadd (Fin a) (Fin b) = Fin (a + b)"
  using toDouble_dyadic(1) [of m k] by (simp add: dadd_Fin)

lemma dmul_exact:
  "a * b = real m / 2 ^ k \<Longrightarrow> m < 2 ^ 53 \<Longrightarrow> k \<le> 1074 \<Longrightarrow> dmul (Fin a) (Fin b) = Fin (a * b)"
  using toDouble_dyadic(1) [of m k] by (simp add: dmul_Fin)

lemma row_bilinear:
  "bilinear (Fin (1 - 1 / 2 ^ 49)) (Fin 0) (Fin 14) (Fin 15) (Fin 14) (Fin 15) = Fin (15 - 1 / 2 ^ 49)"
  "bilinear (Fin (1 - 1 / 2 ^ 49)) (Fin 0) (Fin 0) (Fin 0) (Fin 0) (Fin 0) = Fin 0"
proof -
  define a :: real where "a = 1 - 1 / 2 ^ 49"
  have t1: "dsub (Fin 1) (Fin a) = Fin (1 - a)"
    by (rule dsub_exact [of _ _ 1 49]) (simp_all add: a_def)
  have t2: "dsub (Fin 1) (Fin 0) = Fin (1 - 0)"
    by (rule dsub_exact [of _ _ 1 0]) simp_all
  have t3: "dmul (Fin (1 - a)) (Fin (1 - 0)) = Fin ((1 - a) * (1 - 0))"
    by (rule dmul_exact [of _ _ 1 49]) (simp_all add: a_def)
  have t4: "dmul (Fin ((1 - a) * (1 - 0))) (Fin 14) = Fin ((1 - a) * (1 - 0) * 14)"
    by (rule dmul_exact [of _ _ 14 49]) (simp_all add: a_def)
  have t5: "dmul (Fin a) (Fin (1 - 0)) = Fin (a * (1 - 0))"
    by (rule dmul_exact [of _ _ 562949953421311 49]) (simp_all add: a_def)
  have t6: "dmul (Fin (a * (1 - 0))) (Fin 15) = Fin (a * (1 - 0) * 15)"
    by (rule dmul_exact [of _ _ 8444249301319665 49]) (simp_all add: a_def)
  have t7: "dadd (Fin ((1 - a) * (1 - 0) * 14)) (Fin (a * (1 - 0) * 15)) =
      Fin ((1 - a) * (1 - 0) * 14 + a * (1 - 0) * 15)"
    by (rule dadd_exact [of _ _ 8444249301319679 49]) (simp_all add: a_def)
  have t8: "dmul (Fin (1 - a)) (Fin 0) = Fin 0" "dmul (Fin a) (Fin 0) = Fin 0"
    "dmul (Fin 0) (Fin 14) = Fin 0" "dmul (Fin 0) (Fin 15) = Fin 0" "dmul (Fin 0) (Fin 0) = Fin 0"
    by (simp_all add: dmul_Fin)
  have t9: "dadd (Fin ((1 - a) * (1 - 0) * 14 + a * (1 - 0) * 15)) (Fin 0) =
      Fin ((1 - a) * (1 - 0) * 14 + a * (1 - 0) * 15 + 0)"
    by (rule dadd_exact [of _ _ 8444249301319679 49]) (simp_all add: a_def)
  have t10: "dadd (Fin ((1 - a) * (1 - 0) * 14 + a * (1 - 0) * 15 + 0)) (Fin 0) =
      Fin ((1 - a) * (1 - 0) * 14 + a * (1 - 0) * 15 + 0 + 0)"
    by (rule dadd_exact [of _ _ 8444249301319679 49]) (simp_all add: a_def)
  have "bilinear (Fin a) (Fin 0) (Fin 14) (Fin 15) (Fin 14) (Fin 15) =
      Fin ((1 - a) * (1 - 0) * 14 + a * (1 - 0) * 15 + 0 + 0)"
    unfolding bilinear_def t1 t2 t3 t4 t5 t6 t7 t8 t9 t10 ..
  then show "bilinear (Fin (1 - 1 / 2 ^ 49)) (Fin 0) (Fin 14) (Fin 15) (Fin 14) (Fin 15) =
      Fin (15 - 1 / 2 ^ 49)"
    by (simp add: a_def)
  have z: "dmul (Fin ((1 - a) * (1 - 0))) (Fin 0) = Fin 0" "dmul (Fin (a * (1 - 0))) (Fin 0) = Fin 0"
    "dadd (Fin 0) (Fin 0) = Fin 0"
    by (simp_all add: dmul_Fin dadd_Fin)
  have "bilinear (Fin a) (Fin 0) (Fin 0) (Fin 0) (Fin 0) (Fin 0) = Fin 0"
    unfolding bilinear_def t1 t2 t3 t5 t8 z ..
  then show "bilinear (Fin (1 - 1 / 2 ^ 49)) (Fin 0) (Fin 0) (Fin 0) (Fin 0) (Fin 0) = Fin 0"
    by (simp only: a_def)
qed

lemma row_speed:
  "dsqrt (dadd (dmul (Fin (15 - 1 / 2 ^ 49)) (Fin (15 - 1 / 2 ^ 49))) (dmul (Fin 0) (Fin 0))) =
     Fin (15 - 1 / 2 ^ 49)"
proof -
  define b :: real where "b = 15 - 1 / 2 ^ 49"
  define c :: real where "c = 225 - 1 / 2 ^ 44"
  have r1: "roundEven (b * b * 2 ^ 45) = 7916483719987198"
    by (rule roundEven_near) (simp_all add: b_def)
  have "toDouble (Fin (b * b)) = Fin (of_int (roundEven (b * b * 2 ^ 45)) / 2 ^ 45)"
    by (rule toDouble_at) (simp_all add: b_def)
  then have s1: "dmul (Fin b) (Fin b) = Fin c"
    unfolding r1 dmul_Fin by (simp add: c_def)
  have s2: "dmul (Fin 0) (Fin 0) = Fin 0" by (simp add: dmul_Fin)
  have "dadd (Fin c) (Fin 0) = Fin (c + 0)"
    by (rule dadd_exact [of _ _ 3958241859993599 44]) (simp_all add: c_def)
  then have s3: "dadd (Fin c) (Fin 0) = Fin c" by simp
  have c0: "0 \<le> c" by (simp add: c_def)
  have lo: "8 \<le> sqrt c" by (rule real_le_rsqrt) (simp add: c_def)
  have hi: "sqrt c < 16" by (rule real_less_lsqrt) (simp_all add: c_def)
  have n1: "8444249301319679 - 1 / 2 < sqrt c * 2 ^ 49"
  proof -
    have "(8444249301319679 - 1 / 2) / 2 ^ 49 < sqrt c"
      by (rule real_less_rsqrt) (simp add: c_def power2_eq_square)
    then show ?thesis by (simp add: field_simps)
  qed
  have n2: "sqrt c * 2 ^ 49 < 8444249301319679 + 1 / 2"
  proof -
    have "sqrt c < (8444249301319679 + 1 / 2) / 2 ^ 49"
      by (rule real_less_lsqrt) (simp_all add: c_def power2_eq_square)
    then show ?thesis by (simp add: field_simps)
  qed
  have r2: "roundEven (sqrt c * 2 ^ 49) = 8444249301319679"
    by (rule roundEven_near) (use n1 n2 in simp_all)
  have "toDouble (Fin (sqrt c)) = Fin (of_int (roundEven (sqrt c * 2 ^ 49)) / 2 ^ 49)"
  proof (rule toDouble_at)
    show "49 \<le> (1074::nat)" by simp
    show "2 ^ 53 \<le> 2 * (sqrt c * 2 ^ 49)" using lo by simp
    show "sqrt c * 2 ^ 49 < 2 ^ 53" using hi by simp
    show "0 \<le> sqrt c" using c0 by simp
  qed
  then have "toDouble (Fin (sqrt c)) = Fin b"
    unfolding r2 by (simp add: b_def)
  then have s4: "dsqrt (Fin c) = Fin b"
    using c0 by (simp add: dsqrt_def)
  have "dsqrt (dadd (dmul (Fin b) (Fin b)) (dmul (Fin 0) (Fin 0))) = Fin b"
    unfolding s1 s2 s3 s4 ..
  then show ?thesis by (simp only: b_def)
qed

lemma getDataAtLonLat_value:
  assumes "\<not> jlt lon (west (rbounds (windData this)))" "\<not> jgt lon (east (rbounds (windData this)))"
    "\<not> jlt lat (south (rbounds (windData this)))" "\<not> jgt lat (north (rbounds (windData this)))"
    and "bu = bilinear (weightX this lon) (weightY this lat)
                (toNumber (readAt (array (ru (windData this)))
                   (cell (jfloor (yNormOf this lat)) (rwidth (windData this)) (jfloor (xNormOf this lon)))))
                (toNumber (readAt (array (ru (windData this)))
                   (cell (jfloor (yNormOf this lat)) (rwidth (windData this))
                      (nextCell (jfloor (xNormOf this lon)) (rwidth (windData this))))))
                (toNumber (readAt (array (ru (windData this)))
                   (cell (nextCell (jfloor (yNormOf this lat)) (rheight (windData this)))
                      (rwidth (windData this)) (jfloor (xNormOf this lon)))))
                (toNumber (readAt (array (ru (windData this)))
                   (cell (nextCell (jfloor (yNormOf this lat)) (rheight (windData this)))
                      (rwidth (windData this))
                      (nextCell (jfloor (xNormOf this lon)) (rwidth (windData this))))))"
    and "bv = bilinear (weightX this lon) (weightY this lat)
                (toNumber (readAt (array (rv (windData this)))
                   (cell (jfloor (yNormOf this lat)) (rwidth (windData this)) (jfloor (xNormOf this lon)))))
                (toNumber (readAt (array (rv (windData this)))
                   (cell (jfloor (yNormOf this lat)) (rwidth (windData this))
                      (nextCell (jfloor (xNormOf this lon)) (rwidth (windData this))))))
                (toNumber (readAt (array (rv (windData this)))
                   (cell (nextCell (jfloor (yNormOf this lat)) (rheight (windData this)))
                      (rwidth (windData this)) (jfloor (xNormOf this lon)))))
                (toNumber (readAt (array (rv (windData this)))
                   (cell (nextCell (jfloor (yNormOf this lat)) (rheight (windData this)))
                      (rwidth (windData this))
                      (nextCell (jfloor (xNormOf this lon)) (rwidth (windData this))))))"
  shows "getDataAtLonLat this lon lat =
     Some \<lparr>original =
             \<lparr>ou = readAt (array (ru (windData this))) (floorCell this lon lat),
              ov = readAt (array (rv (windData this))) (floorCell this lon lat),
              ospeed = readAt (array (rspeed (windData this))) (floorCell this lon lat)\<rparr>,
           interpolated =
             \<lparr>iu = bu, iv = bv, ispeed = dsqrt (dadd (dmul bu bu) (dmul bv bv))\<rparr>\<rparr>"
  using assms(1-4) unfolding assms(5,6)
  by (simp add: getDataAtLonLat_def Let_def floorCell_def cell_def nextCell_def bilinear_def
      weightX_def weightY_def)

lemma row_query:
  "getDataAtLonLat ((exampleLayer view)\<lparr>windData := rowField\<rparr>) (Fin 15) (Fin 0) =
     Some \<lparr>original = \<lparr>ou = Some (Fin 14), ov = Some (Fin 0), ospeed = Some (Fin 14)\<rparr>,
           interpolated =
             \<lparr>iu = Fin (15 - 1 / 2 ^ 49), iv = Fin 0, ispeed = Fin (15 - 1 / 2 ^ 49)\<rparr>\<rparr>"
proof -
  let ?L = "(exampleLayer view)\<lparr>windData := rowField\<rparr>"
  have inb: "\<not> jlt (Fin 15) (west (rbounds (windData ?L)))"
    "\<not> jgt (Fin 15) (east (rbounds (windData ?L)))"
    "\<not> jlt (Fin 0) (south (rbounds (windData ?L)))"
    "\<not> jgt (Fin 0) (north (rbounds (windData ?L)))"
    unfolding row_fields by (simp_all add: jgt_def)
  have ys: "jfloor (yNormOf ?L (Fin 0)) = Fin 0" "weightY ?L (Fin 0) = Fin 0"
    by (simp_all add: weightY_def row_yNorm dsub_Fin)
  have cs: "cell (Fin 0) (Fin 23) (Fin 14) = Fin 14" "cell (Fin 0) (Fin 23) (Fin 15) = Fin 15"
    "nextCell (Fin 14) (Fin 23) = Fin 15" "nextCell (Fin 0) (Fin 1) = Fin 0"
    by (simp_all add: cell_def nextCell_def doubleOps jsub_def)
  have fc: "floorCell ?L (Fin 15) (Fin 0) = Fin 14"
    unfolding floorCell_def row_weightX(2) ys row_fields by (simp add: doubleOps)
  have reads: "readAt (array (ru (windData ?L))) (Fin 14) = Some (Fin 14)"
    "readAt (array (ru (windData ?L))) (Fin 15) = Some (Fin 15)"
    "readAt (array (rv (windData ?L))) (Fin 14) = Some (Fin 0)"
    "readAt (array (rv (windData ?L))) (Fin 15) = Some (Fin 0)"
    "readAt (array (rspeed (windData ?L))) (Fin 14) = Some (Fin 14)"
    by (simp_all add: rowField_def)
  have bu: "Fin (15 - 1 / 2 ^ 49) = bilinear (weightX ?L (Fin 15)) (weightY ?L (Fin 0))
                (toNumber (readAt (array (ru (windData ?L)))
                   (cell (jfloor (yNormOf ?L (Fin 0))) (rwidth (windData ?L)) (jfloor (xNormOf ?L (Fin 15))))))
                (toNumber (readAt (array (ru (windData ?L)))
                   (cell (jfloor (yNormOf ?L (Fin 0))) (rwidth (windData ?L))
                      (nextCell (jfloor (xNormOf ?L (Fin 15))) (rwidth (windData ?L))))))
                (toNumber (readAt (array (ru (windData ?L)))
                   (cell (nextCell (jfloor (yNormOf ?L (Fin 0))) (rheight (windData ?L)))
                      (rwidth (windData ?L)) (jfloor (xNormOf ?L (Fin 15))))))
                (toNumber (readAt (array (ru (windData ?L)))
                   (cell (nextCell (jfloor (yNormOf ?L (Fin 0))) (rheight (windData ?L)))
                      (rwidth (windData ?L))
                      (nextCell (jfloor (xNormOf ?L (Fin 15))) (rwidth (windData ?L))))))"
    unfolding row_weightX ys row_fields cs reads toNumber.simps row_bilinear ..
  have bv: "Fin 0 = bilinear (weightX ?L (Fin 15)) (weightY ?L (Fin 0))
                (toNumber (readAt (array (rv (windData ?L)))
                   (cell (jfloor (yNormOf ?L (Fin 0))) (rwidth (windData ?L)) (jfloor (xNormOf ?L (Fin 15))))))
                (toNumber (readAt (array (rv (windData ?L)))
                   (cell (jfloor (yNormOf ?L (Fin 0))) (rwidth (windData ?L))
                      (nextCell (jfloor (xNormOf ?L (Fin 15))) (rwidth (windData ?L))))))
                (toNumber (readAt (array (rv (windData ?L)))
                   (cell (nextCell (jfloor (yNormOf ?L (Fin 0))) (rheight (windData ?L)))
                      (rwidth (windData ?L)) (jfloor (xNormOf ?L (Fin 15))))))
                (toNumber (readAt (array (rv (windData ?L)))
                   (cell (nextCell (jfloor (yNormOf ?L (Fin 0))) (rheight (windData ?L)))
                      (rwidth (windData ?L))
                      (nextCell (jfloor (xNormOf ?L (Fin 15))) (rwidth (windData ?L))))))"
    unfolding row_weightX ys row_fields cs reads toNumber.simps row_bilinear ..
  show ?thesis
    unfolding getDataAtLonLat_value [OF inb bu bv] fc reads row_speed ..
qed


section \<open>Properties of the viewport recomputation\<close>

lemma cornerLoop_fails:
  "\<exists>c \<in> set cs. pick c = None \<Longrightarrow> fst (cornerLoop pick cs st)"
proof (induction cs arbitrary: st)
  case Nil
  then show ?case by simp
next
  case (Cons c cs)
  obtain out a b c' d where st: "st = (out, a, b, c', d)" by (cases st)
  show ?case
  proof (cases "pick c")
    case None
    then show ?thesis by (simp add: st)
  next
    case (Some p)
    with Cons.prems have "\<exists>c \<in> set cs. pick c = None" by auto
    from Cons.IH[OF this] Some show ?thesis by (simp add: st split: prod.splits)
  qed
qed

lemma uvp_outside:
  assumes "fst (pickCorners (viewer this))"
  shows "viewerParameters (updateViewerParameters this) =
           (viewerParameters this)\<lparr>sceneMode := mode (viewer this)\<rparr>"
proof -
  obtain a b c d where "pickCorners (viewer this) = (True, a, b, c, d)"
    using assms by (cases "pickCorners (viewer this)") auto
  then show ?thesis by (simp add: updateViewerParameters_def Let_def)
qed

lemma uvp_inside:
  assumes "pickCorners (viewer this) = (False, minLon, maxLon, minLat, maxLat)"
  shows "viewerParameters (updateViewerParameters this) =
     (let b = rbounds (windData this);
          lonR = bufferedRange (west b) (east b) minLon maxLon;
          latR = bufferedRange (south b) (north b) minLat maxLat;
          p = jmul (Fin 1000) (visibleRatio b lonR latR)
      in \<lparr>lonRange = lonR, latRange = latR,
          pixelSize = (if jgt p (Fin 0) then jmax (Fin 0) (jmin (Fin 1000) p)
                       else pixelSize (viewerParameters this)),
          sceneMode = mode (viewer this)\<rparr>)"
  using assms by (simp add: updateViewerParameters_def Let_def)

lemma sceneMode_refreshed:
  "sceneMode (viewerParameters (updateViewerParameters this)) = mode (viewer this)"
proof (cases "pickCorners (viewer this)")
  case (fields out a b c d)
  show ?thesis
  proof (cases out)
    case True
    with fields show ?thesis by (simp add: uvp_outside)
  next
    case False
    with fields show ?thesis by (simp add: uvp_inside Let_def)
  qed
qed

text \<open>
  C4. Every recomputation sets \<open>sceneMode\<close> to the current mode of the scene, and a
  recomputation in which a screen corner misses the globe leaves \<open>lonRange\<close>, \<open>latRange\<close>
  and \<open>pixelSize\<close> as they were.
\<close>

theorem off_globe_keeps_ranges:
  "sceneMode (viewerParameters (updateViewerParameters this)) = mode (viewer this) \<and>
   ((\<exists>c \<in> set (corners (viewer this)). pickEllipsoid (viewer this) c = None) \<longrightarrow>
      lonRange (viewerParameters (updateViewerParameters this)) = lonRange (viewerParameters this) \<and>
      latRange (viewerParameters (updateViewerParameters this)) = latRange (viewerParameters this) \<and>
      pixelSize (viewerParameters (updateViewerParameters this)) = pixelSize (viewerParameters this))"
proof (intro conjI impI)
  show "sceneMode (viewerParameters (updateViewerParameters this)) = mode (viewer this)"
    by (rule sceneMode_refreshed)
next
  assume "\<exists>c \<in> set (corners (viewer this)). pickEllipsoid (viewer this) c = None"
  then have out: "fst (pickCorners (viewer this))"
    unfolding pickCorners_def by (rule cornerLoop_fails)
  show "lonRange (viewerParameters (updateViewerParameters this)) = lonRange (viewerParameters this)"
    by (simp add: uvp_outside [OF out])
  show "latRange (viewerParameters (updateViewerParameters this)) = latRange (viewerParameters this)"
    by (simp add: uvp_outside [OF out])
  show "pixelSize (viewerParameters (updateViewerParameters this)) = pixelSize (viewerParameters this)"
    by (simp add: uvp_outside [OF out])
qed

theorem off_globe_keeps_ranges_witness:
  "pickEllipsoid (viewer (exampleLayer horizonView)) (Fin 0, Fin 0) = None \<and>
   sceneMode (viewerParameters (exampleLayer horizonView)) = SCENE2D \<and>
   sceneMode (viewerParameters (updateViewerParameters (exampleLayer horizonView))) = SCENE3D \<and>
   lonRange (viewerParameters (updateViewerParameters (exampleLayer horizonView))) =
     \<lparr>cx = Fin (- 180), cy = Fin 180\<rparr> \<and>
   latRange (viewerParameters (updateViewerParameters (exampleLayer horizonView))) =
     \<lparr>cx = Fin (- 90), cy = Fin 90\<rparr> \<and>
   pixelSize (viewerParameters (updateViewerParameters (exampleLayer horizonView))) = Fin 1000"
  using off_globe_keeps_ranges [of "exampleLayer horizonView"]
  by (simp add: exampleLayer_def exampleHost_def horizonView_def corners_def)

lemma cornerLoop_succeeds:
  "\<forall>c \<in> set cs. pick c \<noteq> None \<Longrightarrow> fst (cornerLoop pick cs st) = fst st"
proof (induction cs arbitrary: st)
  case Nil
  then show ?case by simp
next
  case (Cons x cs)
  obtain out a b c d where st: "st = (out, a, b, c, d)" by (cases st)
  from Cons.prems obtain lon lat where p: "pick x = Some (lon, lat)" by auto
  from Cons.prems have "\<forall>c \<in> set cs. pick c \<noteq> None" by simp
  from Cons.IH [OF this] show ?case by (simp add: st p)
qed

lemma pickCorners_on_globe:
  assumes "\<forall>c \<in> set (corners h). pickEllipsoid h c \<noteq> None"
  shows "\<exists>a b c d. pickCorners h = (False, a, b, c, d)"
proof -
  have "fst (pickCorners h) = False"
    unfolding pickCorners_def using cornerLoop_succeeds [OF assms] by simp
  then show ?thesis by (cases "pickCorners h") auto
qed

lemma bufferedRange_Fin:
  "bufferedRange (Fin lo) (Fin hi) (Fin a) (Fin b) =
     \<lparr>cx = Fin (max lo (max lo a - (min hi b - max lo a) * (5 / 100))),
      cy = Fin (min hi (min hi b + (min hi b - max lo a) * (5 / 100)))\<rparr>"
  by (simp add: bufferedRange_def Let_def)

lemma clamp_range:
  "jgt p (Fin 0) \<Longrightarrow>
   jle (Fin 0) (jmax (Fin 0) (jmin (Fin 1000) p)) \<and> jle (jmax (Fin 0) (jmin (Fin 1000) p)) (Fin 1000)"
  by (cases p) (auto simp: jgt_def)

lemma clamp_mono:
  "jlt (Fin 0) r1 \<Longrightarrow> jle r1 r2 \<Longrightarrow>
   jgt (jmul (Fin 1000) r1) (Fin 0) \<and> jgt (jmul (Fin 1000) r2) (Fin 0) \<and>
   jle (jmax (Fin 0) (jmin (Fin 1000) (jmul (Fin 1000) r1)))
       (jmax (Fin 0) (jmin (Fin 1000) (jmul (Fin 1000) r2)))"
  by (cases r1; cases r2) (auto simp: jgt_def inf_of_def)


lemma pickCorners_rectangle:
  "pickCorners (exampleHost (rectangleView w s e n)) =
     (False, Fin (min (min (min (min 180 w) w) e) e), Fin (max (max (max (max (- 180) w) w) e) e),
      Fin (min (min (min (min 90 n) s) n) s), Fin (max (max (max (max (- 90) n) s) n) s))"
  by (simp add: pickCorners_def corners_def exampleHost_def rectangleView_def)

lemma uvp_rectangle:
  "viewerParameters (updateViewerParameters (exampleLayer (rectangleView w s e n))) =
     (let b = rbounds exampleField;
          lonR = bufferedRange (west b) (east b)
                   (Fin (min (min (min (min 180 w) w) e) e)) (Fin (max (max (max (max (- 180) w) w) e) e));
          latR = bufferedRange (south b) (north b)
                   (Fin (min (min (min (min 90 n) s) n) s)) (Fin (max (max (max (max (- 90) n) s) n) s));
          p = jmul (Fin 1000) (visibleRatio b lonR latR)
      in \<lparr>lonRange = lonR, latRange = latR,
          pixelSize = (if jgt p (Fin 0) then jmax (Fin 0) (jmin (Fin 1000) p) else Fin 1000),
          sceneMode = SCENE3D\<rparr>)"
proof -
  have "pickCorners (viewer (exampleLayer (rectangleView w s e n))) =
     (False, Fin (min (min (min (min 180 w) w) e) e), Fin (max (max (max (max (- 180) w) w) e) e),
      Fin (min (min (min (min 90 n) s) n) s), Fin (max (max (max (max (- 90) n) s) n) s))"
    by (simp add: exampleLayer_fields pickCorners_rectangle)
  from uvp_inside [OF this] show ?thesis
    by (simp add: exampleLayer_fields Let_def)
qed

lemma view_full:
  "viewerParameters (updateViewerParameters (exampleLayer (rectangleView 0 0 10 10))) =
     \<lparr>lonRange = \<lparr>cx = Fin 0, cy = Fin 10\<rparr>,
      latRange = \<lparr>cx = Fin 0, cy = Fin 10\<rparr>,
      pixelSize = Fin 1000, sceneMode = SCENE3D\<rparr>"
  by (simp add: uvp_rectangle exampleField_def bufferedRange_Fin visibleRatio_def jgt_def Let_def)

lemma view_zoomed:
  "viewerParameters (updateViewerParameters (exampleLayer (rectangleView 0 0 5 5))) =
     \<lparr>lonRange = \<lparr>cx = Fin 0, cy = Fin (21 / 4)\<rparr>,
      latRange = \<lparr>cx = Fin 0, cy = Fin (21 / 4)\<rparr>,
      pixelSize = Fin 525, sceneMode = SCENE3D\<rparr>"
  by (simp add: uvp_rectangle exampleField_def bufferedRange_Fin visibleRatio_def jgt_def Let_def)

lemma view_disjoint:
  "viewerParameters (updateViewerParameters (exampleLayer (rectangleView 20 0 30 10))) =
     \<lparr>lonRange = \<lparr>cx = Fin (41 / 2), cy = Fin (19 / 2)\<rparr>,
      latRange = \<lparr>cx = Fin 0, cy = Fin 10\<rparr>,
      pixelSize = Fin 1000, sceneMode = SCENE3D\<rparr>"
  by (simp add: uvp_rectangle exampleField_def bufferedRange_Fin visibleRatio_def jgt_def Let_def)


lemma rectangle_on_globe:
  "\<forall>c \<in> set (corners (viewer (exampleLayer (rectangleView w s e n)))).
     pickEllipsoid (viewer (exampleLayer (rectangleView w s e n))) c \<noteq> None"
  by (simp add: exampleLayer_fields exampleHost_def rectangleView_def)


lemma buffer_real:
  fixes lo hi X Y :: real
  assumes "lo \<le> X" "X \<le> Y" "Y \<le> hi"
  shows "max lo (X - (Y - X) * (5 / 100)) \<le> hi" and "lo \<le> min hi (Y + (Y - X) * (5 / 100))"
proof -
  have "0 \<le> (Y - X) * (5 / 100)" using assms by simp
  then show "max lo (X - (Y - X) * (5 / 100)) \<le> hi" using assms by linarith
  from \<open>0 \<le> (Y - X) * (5 / 100)\<close>
  show "lo \<le> min hi (Y + (Y - X) * (5 / 100))" using assms by linarith
qed

lemma uvp_pixelSize:
  assumes "inRange (Fin 0) (Fin 1000) (pixelSize (viewerParameters this))"
  shows "inRange (Fin 0) (Fin 1000) (pixelSize (viewerParameters (updateViewerParameters this)))"
proof (cases "pickCorners (viewer this)")
  case (fields out a b c d)
  show ?thesis
  proof (cases out)
    case True
    with fields assms show ?thesis by (simp add: uvp_outside)
  next
    case False
    with fields have pc: "pickCorners (viewer this) = (False, a, b, c, d)" by simp
    show ?thesis
      using assms clamp_range by (simp add: uvp_inside [OF pc] Let_def inRange_def)
  qed
qed

lemma setupEventListeners_parameters:
  "viewerParameters (setupEventListeners this) = viewerParameters this"
  by (simp add: setupEventListeners_def Let_def bindFunction_def split: prod.splits)

lemma removeEventListeners_parameters:
  "viewerParameters (removeEventListeners this) = viewerParameters this"
  "particleSystem (removeEventListeners this) = particleSystem this"
  by (simp_all add: removeEventListeners_def Let_def bindFunction_def split: prod.splits)

lemma dispatchEvent_parameters:
  "viewerParameters (dispatchEvent type data this) = viewerParameters this"
  by (simp add: dispatchEvent_def split: option.splits)

lemma add_layer_parameters:
  "add_layer this = Inr this' \<Longrightarrow> viewerParameters this' = viewerParameters this"
  by (auto simp: add_layer_def split: option.splits)

lemma WindLayer_new_parameters:
  assumes "WindLayer_new h wd po engine = Inr this"
  shows "inRange (Fin 0) (Fin 1000) (pixelSize (viewerParameters this))"
proof -
  define this0 where "this0 =
     \<lparr>showFlag = True, windData = processWindData wd, viewer = h,
      options = spreadOptions DefaultOptions po, particleSystem = None,
      viewerParameters =
        \<lparr>lonRange = \<lparr>cx = Fin (- 180), cy = Fin 180\<rparr>, latRange = \<lparr>cx = Fin (- 90), cy = Fin 90\<rparr>,
         pixelSize = Fin 1000, sceneMode = mode h\<rparr>,
      isDestroyedFlag = False, primitives = [], eventListeners = (\<lambda>type. None)\<rparr>"
  have "inRange (Fin 0) (Fin 1000) (pixelSize (viewerParameters this0))"
    by (simp add: this0_def inRange_def)
  from uvp_pixelSize [OF this]
  have one: "inRange (Fin 0) (Fin 1000) (pixelSize (viewerParameters (updateViewerParameters this0)))" .
  from assms obtain this3 where
    a: "add_layer ((updateViewerParameters this0)
          \<lparr>particleSystem := Some \<lparr>getPrimitives = engine, received = []\<rparr>\<rparr>) = Inr this3"
    and t: "this = setupEventListeners this3"
    by (auto simp: WindLayer_new_def Let_def this0_def split: sum.splits)
  from add_layer_parameters [OF a] one show ?thesis
    by (simp add: t setupEventListeners_parameters)
qed

lemma updateWindData_parameters:
  "updateWindData data this = Inr this' \<Longrightarrow> viewerParameters this' = viewerParameters this"
  by (auto simp: updateWindData_def Let_def dispatchEvent_parameters split: if_splits option.splits)

lemma updateOptions_parameters:
  "updateOptions deepMerge opts this = Inr this' \<Longrightarrow> viewerParameters this' = viewerParameters this"
  by (auto simp: updateOptions_def Let_def dispatchEvent_parameters split: if_splits option.splits)

lemma destroy_parameters:
  "destroy this = Inr this' \<Longrightarrow> viewerParameters this' = viewerParameters this"
  by (auto simp: destroy_def Let_def removeEventListeners_parameters remove_layer_def
      split: option.splits)

lemma listener_parameters:
  "viewerParameters (addEventListener type callback this) = viewerParameters this"
  "viewerParameters (removeEventListener type callback this) = viewerParameters this"
  by (simp_all add: addEventListener_def removeEventListener_def Let_def split: option.splits)

lemma reachable_pixelSize:
  "reachable this \<Longrightarrow> inRange (Fin 0) (Fin 1000) (pixelSize (viewerParameters this))"
proof (induction rule: reachable.induct)
  case (constructed h wd po engine this)
  then show ?case by (rule WindLayer_new_parameters)
next
  case (recomputed this)
  from uvp_pixelSize [OF recomputed.IH] show ?case .
next
  case (destroyed this this')
  then show ?case by (simp add: destroy_parameters)
next
  case (removed this)
  then show ?case by (simp add: remove_layer_def)
qed (simp_all add: updateWindData_parameters updateOptions_parameters add_layer_parameters
    listener_parameters)

lemma reachable_example: "reachable (exampleLayer view)"
proof -
  define L where "L = projr (WindLayer_new ((exampleHost horizonView)\<lparr>mode := SCENE2D\<rparr>) exampleData None [1, 2])"
  have c: "WindLayer_new ((exampleHost horizonView)\<lparr>mode := SCENE2D\<rparr>) exampleData None [1, 2] = Inr L"
    by (simp add: L_def WindLayer_new_def Let_def add_layer_def)
  have "L\<lparr>viewer := exampleHost view\<rparr> = exampleLayer view"
    by (simp add: L_def WindLayer_new_def Let_def add_layer_def updateViewerParameters_def
        pickCorners_def corners_def horizonView_def exampleHost_def setupEventListeners_def
        bindFunction_def process_example exampleLayer_def spreadOptions_def)
  with reachable.host_changed [OF reachable.constructed [OF c], of "exampleHost view"]
  show ?thesis by simp
qed

text \<open>
  C3 (as amended). In every state of a layer (the constructor's result and what the layer's
  methods and the changes of the host lead to), after a recomputation in which every corner
  picks a point of the globe: \<open>pixelSize\<close> lies within 0 and 1000, and it keeps its
  previous value when the computed one is not positive. When the bounds of the field and
  the picked coordinates are finite, the lower end of \<open>lonRange\<close> is at least \<open>west\<close> and its
  upper end at most \<open>east\<close>, likewise for \<open>latRange\<close>; and when the picked rectangle meets
  the bounds on an axis, both ends of that range lie within the bounds.
\<close>

theorem viewport_within_bounds:
  assumes "reachable this"
    and "\<forall>c \<in> set (corners (viewer this)). pickEllipsoid (viewer this) c \<noteq> None"
    and "pickCorners (viewer this) = (out, minLon, maxLon, minLat, maxLat)"
  shows "let vp = viewerParameters (updateViewerParameters this); b = rbounds (windData this) in
     inRange (Fin 0) (Fin 1000) (pixelSize vp) \<and>
     (\<not> jgt (jmul (Fin 1000) (visibleRatio b (lonRange vp) (latRange vp))) (Fin 0)
        \<longrightarrow> pixelSize vp = pixelSize (viewerParameters this)) \<and>
     (isFin (west b) \<and> isFin (east b) \<and> isFin (south b) \<and> isFin (north b) \<and>
      isFin minLon \<and> isFin maxLon \<and> isFin minLat \<and> isFin maxLat \<longrightarrow>
        jle (west b) (cx (lonRange vp)) \<and> jle (cy (lonRange vp)) (east b) \<and>
        jle (south b) (cx (latRange vp)) \<and> jle (cy (latRange vp)) (north b) \<and>
        (jle (jmax (west b) minLon) (jmin (east b) maxLon) \<longrightarrow>
           inRange (west b) (east b) (cx (lonRange vp)) \<and>
           inRange (west b) (east b) (cy (lonRange vp))) \<and>
        (jle (jmax (south b) minLat) (jmin (north b) maxLat) \<longrightarrow>
           inRange (south b) (north b) (cx (latRange vp)) \<and>
           inRange (south b) (north b) (cy (latRange vp))))"
proof -
  let ?b = "rbounds (windData this)"
  from pickCorners_on_globe [OF assms(2)] assms(3)
  have pc: "pickCorners (viewer this) = (False, minLon, maxLon, minLat, maxLat)" by auto
  define p where "p = jmul (Fin 1000)
      (visibleRatio ?b (bufferedRange (west ?b) (east ?b) minLon maxLon)
         (bufferedRange (south ?b) (north ?b) minLat maxLat))"
  have vp: "viewerParameters (updateViewerParameters this) =
      \<lparr>lonRange = bufferedRange (west ?b) (east ?b) minLon maxLon,
       latRange = bufferedRange (south ?b) (north ?b) minLat maxLat,
       pixelSize = (if jgt p (Fin 0) then jmax (Fin 0) (jmin (Fin 1000) p)
                    else pixelSize (viewerParameters this)),
       sceneMode = mode (viewer this)\<rparr>"
    using uvp_inside [OF pc] by (simp add: Let_def p_def)
  have px: "inRange (Fin 0) (Fin 1000) (pixelSize (viewerParameters (updateViewerParameters this)))"
    using uvp_pixelSize [OF reachable_pixelSize [OF assms(1)]] .
  have keep: "pixelSize (viewerParameters (updateViewerParameters this)) =
      pixelSize (viewerParameters this)"
    if "\<not> jgt (jmul (Fin 1000) (visibleRatio ?b
            (lonRange (viewerParameters (updateViewerParameters this)))
            (latRange (viewerParameters (updateViewerParameters this))))) (Fin 0)"
    using that by (simp add: vp p_def)
  have one: "jle (Fin lo) (cx (bufferedRange (Fin lo) (Fin hi) (Fin x) (Fin y))) \<and>
      jle (cy (bufferedRange (Fin lo) (Fin hi) (Fin x) (Fin y))) (Fin hi)" for lo hi x y :: real
    by (simp add: bufferedRange_Fin)
  have two: "inRange (Fin lo) (Fin hi) (cx (bufferedRange (Fin lo) (Fin hi) (Fin x) (Fin y))) \<and>
      inRange (Fin lo) (Fin hi) (cy (bufferedRange (Fin lo) (Fin hi) (Fin x) (Fin y)))"
    if h: "jle (jmax (Fin lo) (Fin x)) (jmin (Fin hi) (Fin y))" for lo hi x y :: real
  proof -
    from h have "max lo x \<le> min hi y" by (simp only: jmax_Fin jmin_Fin jle.simps)
    then show ?thesis
      using buffer_real [of lo "max lo x" "min hi y" hi]
      by (simp add: bufferedRange_Fin inRange_def)
  qed
  have ranges: "jle (west ?b) (cx (bufferedRange (west ?b) (east ?b) minLon maxLon)) \<and>
      jle (cy (bufferedRange (west ?b) (east ?b) minLon maxLon)) (east ?b) \<and>
      jle (south ?b) (cx (bufferedRange (south ?b) (north ?b) minLat maxLat)) \<and>
      jle (cy (bufferedRange (south ?b) (north ?b) minLat maxLat)) (north ?b) \<and>
      (jle (jmax (west ?b) minLon) (jmin (east ?b) maxLon) \<longrightarrow>
         inRange (west ?b) (east ?b) (cx (bufferedRange (west ?b) (east ?b) minLon maxLon)) \<and>
         inRange (west ?b) (east ?b) (cy (bufferedRange (west ?b) (east ?b) minLon maxLon))) \<and>
      (jle (jmax (south ?b) minLat) (jmin (north ?b) maxLat) \<longrightarrow>
         inRange (south ?b) (north ?b) (cx (bufferedRange (south ?b) (north ?b) minLat maxLat)) \<and>
         inRange (south ?b) (north ?b) (cy (bufferedRange (south ?b) (north ?b) minLat maxLat)))"
    if fin: "isFin (west ?b) \<and> isFin (east ?b) \<and> isFin (south ?b) \<and> isFin (north ?b) \<and>
      isFin minLon \<and> isFin maxLon \<and> isFin minLat \<and> isFin maxLat"
  proof -
    from fin obtain w e s n a b c d where
      v: "west ?b = Fin w" "east ?b = Fin e" "south ?b = Fin s" "north ?b = Fin n"
         "minLon = Fin a" "maxLon = Fin b" "minLat = Fin c" "maxLat = Fin d"
      by (meson isFin_obtain)
    show ?thesis
      unfolding v using one [of w e a b] one [of s n c d] two [of w a e b] two [of s c n d]
      by blast
  qed
  show ?thesis
    unfolding Let_def using px keep ranges by (simp add: vp)
qed

theorem viewport_within_bounds_witness:
  "reachable (exampleLayer (rectangleView 0 0 5 5)) \<and>
   pickCorners (viewer (exampleLayer (rectangleView 0 0 5 5))) = (False, Fin 0, Fin 5, Fin 0, Fin 5) \<and>
   jle (jmax (Fin 0) (Fin 0)) (jmin (Fin 10) (Fin 5)) \<and>
   viewerParameters (updateViewerParameters (exampleLayer (rectangleView 0 0 5 5))) =
     \<lparr>lonRange = \<lparr>cx = Fin 0, cy = Fin (21 / 4)\<rparr>,
      latRange = \<lparr>cx = Fin 0, cy = Fin (21 / 4)\<rparr>,
      pixelSize = Fin 525, sceneMode = SCENE3D\<rparr> \<and>
   inRange (Fin 0) (Fin 10) (Fin 0) \<and> inRange (Fin 0) (Fin 10) (Fin (21 / 4)) \<and>
   inRange (Fin 0) (Fin 1000) (Fin 525) \<and>
   reachable (exampleLayer (rectangleView 20 0 30 10)) \<and>
   pickCorners (viewer (exampleLayer (rectangleView 20 0 30 10))) = (False, Fin 20, Fin 30, Fin 0, Fin 10) \<and>
   \<not> jgt (jmul (Fin 1000)
            (visibleRatio (rbounds (windData (exampleLayer (rectangleView 20 0 30 10))))
               \<lparr>cx = Fin (41 / 2), cy = Fin (19 / 2)\<rparr> \<lparr>cx = Fin 0, cy = Fin 10\<rparr>)) (Fin 0) \<and>
   pixelSize (viewerParameters (updateViewerParameters (exampleLayer (rectangleView 20 0 30 10)))) =
     pixelSize (viewerParameters (exampleLayer (rectangleView 20 0 30 10))) \<and>
   inRange (Fin 0) (Fin 1000)
     (pixelSize (viewerParameters (updateViewerParameters (exampleLayer (rectangleView 20 0 30 10)))))"
proof -
  have b: "rbounds (windData (exampleLayer view)) =
             \<lparr>west = Fin 0, south = Fin 0, east = Fin 10, north = Fin 10\<rparr>" for view
    by (simp add: exampleLayer_fields exampleField_def)
  have c1: "pickCorners (viewer (exampleLayer (rectangleView 0 0 5 5))) = (False, Fin 0, Fin 5, Fin 0, Fin 5)"
    by (simp add: exampleLayer_fields pickCorners_rectangle)
  have c2: "pickCorners (viewer (exampleLayer (rectangleView 20 0 30 10))) =
              (False, Fin 20, Fin 30, Fin 0, Fin 10)"
    by (simp add: exampleLayer_fields pickCorners_rectangle)
  from viewport_within_bounds [OF reachable_example rectangle_on_globe c1]
       viewport_within_bounds [OF reachable_example rectangle_on_globe c2] c1 c2
       reachable_example [of "rectangleView 0 0 5 5"] reachable_example [of "rectangleView 20 0 30 10"]
  show ?thesis
    by (simp add: view_zoomed view_disjoint b Let_def visibleRatio_def jgt_def exampleLayer_fields
        exampleField_def inRange_def)
qed

text \<open>
  C3 as stated fails when the camera sees nothing of the field: for the example field and
  a view of the longitudes 20 to 30, the lower end of \<open>lonRange\<close> becomes 20.5, above
  \<open>east = 10\<close>.
\<close>

theorem viewport_outside_field:
  "pickCorners (viewer (exampleLayer (rectangleView 20 0 30 10))) = (False, Fin 20, Fin 30, Fin 0, Fin 10) \<and>
   west (rbounds (windData (exampleLayer (rectangleView 20 0 30 10)))) = Fin 0 \<and>
   east (rbounds (windData (exampleLayer (rectangleView 20 0 30 10)))) = Fin 10 \<and>
   lonRange (viewerParameters (updateViewerParameters (exampleLayer (rectangleView 20 0 30 10)))) =
     \<lparr>cx = Fin (41 / 2), cy = Fin (19 / 2)\<rparr> \<and>
   \<not> inRange (west (rbounds (windData (exampleLayer (rectangleView 20 0 30 10)))))
        (east (rbounds (windData (exampleLayer (rectangleView 20 0 30 10)))))
        (cx (lonRange (viewerParameters (updateViewerParameters (exampleLayer (rectangleView 20 0 30 10))))))"
  by (simp add: view_disjoint exampleLayer_fields pickCorners_rectangle exampleField_def inRange_def)

section \<open>Properties of the life cycle\<close>

lemma destroy_ok:
  assumes "particleSystem this = Some ps"
  shows "destroy this =
     Inr (removeEventListeners (remove_layer this)
            \<lparr>particleSystem := Some (ps\<lparr>received := received ps @ [DestroySystem]\<rparr>),
             eventListeners := (\<lambda>type. None),
             isDestroyedFlag := True\<rparr>)"
  using assms
  by (simp add: destroy_def Let_def removeEventListeners_def remove_layer_def split: prod.splits)

lemma removeEventListeners_host:
  "cameraChanged (viewer (removeEventListeners this)) =
     remove1 (nextFunction (viewer this)) (cameraChanged (viewer this))"
  "morphComplete (viewer (removeEventListeners this)) =
     remove1 (nextFunction (viewer this) + 1) (morphComplete (viewer this))"
  "windowResize (viewer (removeEventListeners this)) =
     remove1 (nextFunction (viewer this) + 2) (windowResize (viewer this))"
  by (simp_all add: removeEventListeners_def bindFunction_def eventRemove_def windowRemove_def Let_def)

lemma remove_layer_host:
  "cameraChanged (viewer (remove_layer this)) = cameraChanged (viewer this)"
  "morphComplete (viewer (remove_layer this)) = morphComplete (viewer this)"
  "windowResize (viewer (remove_layer this)) = windowResize (viewer this)"
  "nextFunction (viewer (remove_layer this)) = nextFunction (viewer this)"
  by (simp_all add: remove_layer_def)

lemma registered_destroy:
  assumes "particleSystem this = Some ps"
  shows "map_sum id (\<lambda>this. (isDestroyed this, registered this)) (destroy this) =
     Inr (True,
          remove1 (nextFunction (viewer this)) (cameraChanged (viewer this)),
          remove1 (nextFunction (viewer this) + 1) (morphComplete (viewer this)),
          remove1 (nextFunction (viewer this) + 2) (windowResize (viewer this)))"
  by (simp add: destroy_ok [OF assms] registered_def isDestroyed_def removeEventListeners_host
      remove_layer_host)

lemma WindLayer_new_ok:
  "WindLayer_new h wd po engine =
     Inr (setupEventListeners
            ((updateViewerParameters
               \<lparr>showFlag = True,
                windData = processWindData wd,
                viewer = h,
                options = spreadOptions DefaultOptions po,
                particleSystem = None,
                viewerParameters =
                  \<lparr>lonRange = \<lparr>cx = Fin (- 180), cy = Fin 180\<rparr>,
                   latRange = \<lparr>cx = Fin (- 90), cy = Fin 90\<rparr>,
                   pixelSize = Fin 1000,
                   sceneMode = mode h\<rparr>,
                isDestroyedFlag = False,
                primitives = [],
                eventListeners = (\<lambda>type. None)\<rparr>)
             \<lparr>particleSystem := Some \<lparr>getPrimitives = engine, received = []\<rparr>,
              primitives := engine,
              viewer := h\<lparr>scenePrimitives := scenePrimitives h @ engine\<rparr>\<rparr>))"
  by (simp add: WindLayer_new_def Let_def add_layer_def updateViewerParameters_def split: prod.splits)

lemma setupEventListeners_host:
  "cameraChanged (viewer (setupEventListeners this)) =
     cameraChanged (viewer this) @ [nextFunction (viewer this)]"
  "morphComplete (viewer (setupEventListeners this)) =
     morphComplete (viewer this) @ [nextFunction (viewer this) + 1]"
  "windowResize (viewer (setupEventListeners this)) =
     windowAdd (windowResize (viewer this)) (nextFunction (viewer this) + 2)"
  "nextFunction (viewer (setupEventListeners this)) = nextFunction (viewer this) + 3"
  "particleSystem (setupEventListeners this) = particleSystem this"
  by (simp_all add: setupEventListeners_def bindFunction_def eventAdd_def Let_def)



text \<open>
  C10. The listeners that the constructor registers with the camera, the scene and the
  window are still registered after \<open>destroy\<close>: \<open>removeEventListeners\<close> passes newly bound
  functions, which are identical to none of the registered ones. Here the constructor
  registers the functions 0, 1 and 2, and \<open>destroy\<close> asks for the removal of 3, 4 and 5.
\<close>

theorem destroy_leaves_listeners:
  "map_sum id registered (WindLayer_new (exampleHost horizonView) exampleData None [1, 2]) =
     Inr ([0], [1], [2]) \<and>
   map_sum id (\<lambda>this. (isDestroyed this, registered this))
     (case WindLayer_new (exampleHost horizonView) exampleData None [1, 2] of
        Inl e \<Rightarrow> Inl e
      | Inr this \<Rightarrow> destroy this) =
     Inr (True, [0], [1], [2])"
proof -
  obtain l where new: "WindLayer_new (exampleHost horizonView) exampleData None [1, 2] = Inr l"
    and l: "l = setupEventListeners
            ((updateViewerParameters
               \<lparr>showFlag = True,
                windData = processWindData exampleData,
                viewer = exampleHost horizonView,
                options = spreadOptions DefaultOptions None,
                particleSystem = None,
                viewerParameters =
                  \<lparr>lonRange = \<lparr>cx = Fin (- 180), cy = Fin 180\<rparr>,
                   latRange = \<lparr>cx = Fin (- 90), cy = Fin 90\<rparr>,
                   pixelSize = Fin 1000,
                   sceneMode = mode (exampleHost horizonView)\<rparr>,
                isDestroyedFlag = False,
                primitives = [],
                eventListeners = (\<lambda>type. None)\<rparr>)
             \<lparr>particleSystem := Some \<lparr>getPrimitives = [1, 2], received = []\<rparr>,
              primitives := [1, 2],
              viewer := (exampleHost horizonView)
                \<lparr>scenePrimitives := scenePrimitives (exampleHost horizonView) @ [1, 2]\<rparr>\<rparr>)"
    by (simp add: WindLayer_new_ok)
  have reg: "registered l = ([0], [1], [2])"
    by (simp add: l registered_def setupEventListeners_host exampleHost_def windowAdd_def)
  have nf: "nextFunction (viewer l) = 3"
    by (simp add: l setupEventListeners_host exampleHost_def)
  have ps: "particleSystem l = Some \<lparr>getPrimitives = [1, 2], received = []\<rparr>"
    by (simp add: l setupEventListeners_host)
  have "map_sum id (\<lambda>this. (isDestroyed this, registered this)) (destroy l) =
          Inr (True, [0], [1], [2])"
    using reg registered_destroy [OF ps] by (simp add: nf registered_def)
  with new reg show ?thesis by simp
qed

end
